theory Spec2Isabelle
  imports Main "HOL-Library.Sublist" "HOL-Library.Char_ord" "HOL-Library.List_Lexorder"
    "HOL-Library.Multiset"
begin

section \<open>The data model of compute.go\<close>

text \<open>
  Go strings are byte sequences and \<open>len\<close> counts bytes; a HOL \<open>string\<close> is a list of
  8-bit characters, so \<open>length\<close> is \<open>len\<close>. Go's \<open>int\<close> fields are only compared with
  constants and printed in decimal, never added to, so they are modelled as \<open>int\<close>.
\<close>

type_synonym Flavor = int
type_synonym ServerImage = int

definition XSmall :: Flavor where "XSmall = 100 + 0"
definition Small :: Flavor where "Small = 100 + 1"
definition Medium :: Flavor where "Medium = 100 + 2"
definition Large :: Flavor where "Large = 100 + 3"
definition XLarge :: Flavor where "XLarge = 100 + 4"
definition DblXLarge :: Flavor where "DblXLarge = 100 + 5"

definition UbuntuLucid10_04Kernel :: ServerImage where "UbuntuLucid10_04Kernel = 1235"

record Link =
  HREF :: string
  Rel :: string

record IDLink =
  Name :: string
  ID :: string
  Links :: "Link list"

text \<open>
  \<open>Metadata\<close> is a Go \<open>map[string]string\<close>. The only things \<open>MarshalJSON\<close> does with it
  are \<open>len\<close> and one \<open>range\<close> loop, so the field holds the entries of the map as the list of
  (key, value) pairs in the order in which the \<open>range\<close> loop of this invocation visits them.
  A Go map has pairwise distinct keys, and the order of \<open>range\<close> is unspecified: it may
  differ between two invocations on the same map.
\<close>

record Server =
  ConfigDrive :: bool
  FlavorRef :: Flavor
  ImageRef :: ServerImage
  MaxCount :: int
  MinCount :: int
  Name :: string
  Key :: string
  Personality :: string
  UserData :: string
  SecurityGroups :: "IDLink list"
  Metadata :: "(string \<times> string) list"

text \<open>
  The four \<open>errors.New\<close> values of \<open>MarshalJSON\<close>, under the names the specification gives
  them, then the failures of the collaborators of \<open>CreateServer\<close>, and the run-time panic
  of \<open>base64.Encoding.Encode\<close> on a destination that is too short.
\<close>

datatype error =
    InvalidFlavor
  | MissingImage
  | MissingName
  | PersonalityTooLarge
  | TransportError string
  | UnmarshalError string
  | EncodePanic

fun error_text :: "error \<Rightarrow> string" where
  "error_text InvalidFlavor = ''Flavor Reference refers to a non-existant flavour.''"
| "error_text MissingImage = ''An image name is required.''"
| "error_text MissingName = ''A name is required''"
| "error_text PersonalityTooLarge = ''Server's personality cannot have >255 bytes.''"
| "error_text (TransportError m) = m"
| "error_text (UnmarshalError m) = m"
| "error_text EncodePanic = ''index out of range''"

section \<open>Library functions the encoder calls\<close>

subsection \<open>The verb \<open>%d\<close> of fmt.Sprintf\<close>

definition digit_char :: "nat \<Rightarrow> char" where
  "digit_char d = char_of (of_char (CHR ''0'') + d)"

fun dec_nat :: "nat \<Rightarrow> string" where
  "dec_nat n = (if n < 10 then [digit_char n] else dec_nat (n div 10) @ [digit_char (n mod 10)])"

declare dec_nat.simps [simp del]

definition fmt_d :: "int \<Rightarrow> string" where
  "fmt_d i = (if i < 0 then CHR ''-'' # dec_nat (nat (- i)) else dec_nat (nat i))"

subsection \<open>base64.StdEncoding\<close>

definition encodeStd :: string where
  "encodeStd = ''ABCDEFGHIJKLMNOPQRSTUVWXYZabcdefghijklmnopqrstuvwxyz0123456789+/''"

definition b64_char :: "nat \<Rightarrow> char" where
  "b64_char n = encodeStd ! (n mod 64)"

text \<open>The standard base64 encoding (RFC 4648, padding \<open>=\<close>) of a list of byte values.\<close>

fun b64_bytes :: "nat list \<Rightarrow> string" where
  "b64_bytes [] = []"
| "b64_bytes [a] =
     [b64_char (a div 4), b64_char ((a mod 4) * 16), CHR ''='', CHR ''='']"
| "b64_bytes [a, b] =
     [b64_char (a div 4), b64_char ((a mod 4) * 16 + b div 16),
      b64_char ((b mod 16) * 4), CHR ''='']"
| "b64_bytes (a # b # c # r) =
     [b64_char (a div 4), b64_char ((a mod 4) * 16 + b div 16),
      b64_char ((b mod 16) * 4 + c div 64), b64_char (c mod 64)] @ b64_bytes r"

definition EncodeToString :: "string \<Rightarrow> string" where
  "EncodeToString src = b64_bytes (map of_char src)"

text \<open>
  \<open>func (enc *Encoding) Encode(dst, src []byte)\<close> writes the encoding of \<open>src\<close> over the
  first bytes of \<open>dst\<close> and leaves \<open>src\<close> alone. The result is \<open>dst\<close> after the call;
  \<open>None\<close> is the panic of Go when \<open>dst\<close> is shorter than the encoding.
\<close>

definition Encode :: "string \<Rightarrow> string \<Rightarrow> string option" where
  "Encode dst src =
     (let e = EncodeToString src in
      if length dst < length e then None else Some (e @ drop (length e) dst))"

subsection \<open>bytes.Buffer\<close>

text \<open>
  The buffer \<open>b\<close> is the sequence of the chunks written to it so far, one chunk for each
  call of \<open>WriteString\<close>; \<open>Bytes\<close> is their concatenation.
\<close>

type_synonym Buffer = "string list"

definition NewBufferString :: "string \<Rightarrow> Buffer" where
  "NewBufferString s = (if s = [] then [] else [s])"

definition WriteString :: "Buffer \<Rightarrow> string \<Rightarrow> Buffer" where
  "WriteString b s = b @ [s]"

definition Bytes :: "Buffer \<Rightarrow> string" where
  "Bytes b = concat b"

section \<open>MarshalJSON\<close>

text \<open>
  The loop over the metadata, lines 351 to 359: \<open>n\<close> is \<open>len(s.Metadata)\<close>, the list holds
  the entries still to visit, \<open>cnt\<close> is the counter and \<open>b\<close> the buffer. The counter is
  incremented only in the branch that writes the separator.
\<close>

fun metadata_loop :: "nat \<Rightarrow> (string \<times> string) list \<Rightarrow> nat \<Rightarrow> Buffer \<Rightarrow> Buffer" where
  \<open>metadata_loop n [] cnt b = b\<close>
| \<open>metadata_loop n ((key, val) # es) cnt b =
     (let b = WriteString b (''"'' @ key @ ''": "'' @ val @ ''"'') in
      if cnt + 1 \<noteq> n
      then metadata_loop n es (cnt + 1) (WriteString b '','')
      else metadata_loop n es cnt (WriteString b ''}''))\<close>

text \<open>The loop over the security groups, lines 365 to 373.\<close>

fun groups_loop :: "nat \<Rightarrow> IDLink list \<Rightarrow> nat \<Rightarrow> Buffer \<Rightarrow> Buffer" where
  \<open>groups_loop n [] cnt b = b\<close>
| \<open>groups_loop n (sg # sgs) cnt b =
     (let b = WriteString b (''{"name": "'' @ IDLink.Name sg @ ''"}'') in
      if cnt + 1 \<noteq> n
      then groups_loop n sgs (cnt + 1) (WriteString b '','')
      else groups_loop n sgs cnt (WriteString b '']''))\<close>

text \<open>
  The optional items, lines 327 to 376, on a buffer that already holds the required fields
  and the personality. In the \<open>user_data\<close> branch \<open>newb\<close> is \<open>make([]byte, 0, len(s.UserData))\<close>,
  of length 0, and the call is \<open>Encode([]byte(s.UserData), newb)\<close>: the destination is a
  temporary copy of the user data, the source is \<open>newb\<close>. The destination is dropped after
  the call and \<open>newb\<close> is what is printed.
\<close>

definition optional_items :: "Server \<Rightarrow> Buffer \<Rightarrow> error + Buffer" where
  \<open>optional_items s b0 =
     (let b = (if Key s \<noteq> [] then WriteString b0 ('',"key_name":"'' @ Key s @ ''"'') else b0);
          b = (if ConfigDrive s then WriteString b '',"config_drive": true'' else b);
          b = (if MinCount s > 0 then WriteString b ('',"min_count":'' @ fmt_d (MinCount s)) else b);
          b = (if MaxCount s > 0 then WriteString b ('',"max_count":'' @ fmt_d (MaxCount s)) else b)
      in
      case (if UserData s \<noteq> []
            then (let newb = [] in
                  case Encode (UserData s) newb of
                    None \<Rightarrow> Inl EncodePanic
                  | Some dst \<Rightarrow> Inr (WriteString b ('',"user_data": "'' @ newb @ ''",'')))
            else Inr b) of
        Inl e \<Rightarrow> Inl e
      | Inr b \<Rightarrow>
         (let b = (if length (Metadata s) > 0
                   then metadata_loop (length (Metadata s)) (Metadata s) 0
                          (WriteString b '',"metadata":{'')
                   else b);
              b = (if length (SecurityGroups s) > 0
                   then groups_loop (length (SecurityGroups s)) (SecurityGroups s) 0
                          (WriteString b '',"security_groups":['')
                   else b)
          in Inr (WriteString b ''}}'')))\<close>

text \<open>
  The whole method up to the last line: the buffer it has built, or the error it returns.
  The debugging call \<open>fmt.Println(len(s.Metadata))\<close> writes to standard output, not to the
  buffer, and is left out.
\<close>

definition MarshalJSON_buf :: "Server \<Rightarrow> error + Buffer" where
  \<open>MarshalJSON_buf s =
     (let b = NewBufferString [];
          b = WriteString b ''{"server":{''
      in
      if FlavorRef s < 100 \<or> FlavorRef s > 105 then Inl InvalidFlavor
      else
        let b = WriteString b (''"flavorRef":'' @ fmt_d (FlavorRef s)) in
        if ImageRef s = 0 then Inl MissingImage
        else
          let b = WriteString b ('',"imageRef":'' @ fmt_d (ImageRef s)) in
          if Server.Name s = [] then Inl MissingName
          else
            let b = WriteString b ('',"name":"'' @ Server.Name s @ ''"'') in
            if length (Personality s) > 255 then Inl PersonalityTooLarge
            else
              let b = (if Personality s \<noteq> []
                       then WriteString b ('',"personality":"'' @ Personality s @ ''",'')
                       else b)
              in optional_items s b)\<close>

text \<open>
  The pair that \<open>MarshalJSON\<close> returns: \<open>[]byte{}\<close> with the error, or \<open>b.Bytes()\<close> with
  \<open>nil\<close>.
\<close>

definition MarshalJSON :: "Server \<Rightarrow> string \<times> error option" where
  "MarshalJSON s =
     (case MarshalJSON_buf s of
        Inl e \<Rightarrow> ([], Some e)
      | Inr b \<Rightarrow> (Bytes b, None))"

section \<open>CreateServer\<close>

text \<open>
  \<open>Access\<close>, its method \<open>baseRequest\<close> and the constant \<open>COMPUTE_URL\<close> are declared in
  another file. The transport is a parameter: \<open>baseRequest path method body\<close> answers with
  the response body or an error. The state threaded through \<open>CreateServer\<close> is the log of
  the requests handed to the transport, each with its path, method and body.
\<close>

record Access =
  TenantID :: string

type_synonym request = "string \<times> string \<times> string option"

definition baseComputeRequest ::
  "string \<Rightarrow> (string \<Rightarrow> string \<Rightarrow> string option \<Rightarrow> error + string) \<Rightarrow>
   Access \<Rightarrow> string \<Rightarrow> string \<Rightarrow> string option \<Rightarrow> request list \<Rightarrow>
   (error + string) \<times> request list" where
  "baseComputeRequest COMPUTE_URL baseRequest a url method b log =
     (let path = COMPUTE_URL @ TenantID a @ ''/'' @ url in
      (baseRequest path method b, log @ [(path, method, b)]))"

definition CreateServer ::
  "string \<Rightarrow> (string \<Rightarrow> string \<Rightarrow> string option \<Rightarrow> error + string) \<Rightarrow>
   (string \<Rightarrow> error + 'sr) \<Rightarrow>
   Access \<Rightarrow> Server \<Rightarrow> request list \<Rightarrow> (error + 'sr) \<times> request list" where
  "CreateServer COMPUTE_URL baseRequest Unmarshal a s log =
     (case MarshalJSON s of
        (b, Some err) \<Rightarrow> (Inl err, log)
      | (b, None) \<Rightarrow>
          (case baseComputeRequest COMPUTE_URL baseRequest a ''servers'' ''POST'' (Some b) log of
             (Inl err, log') \<Rightarrow> (Inl err, log')
           | (Inr body, log') \<Rightarrow>
               (case Unmarshal body of
                  Inl err \<Rightarrow> (Inl err, log')
                | Inr sr \<Rightarrow> (Inr sr, log'))))"

section \<open>Notions of the specification\<close>

subsection \<open>The validation order\<close>

text \<open>
  The first violated rule in the order of the specification: flavor in the closed set of
  tier codes, image non-zero, name non-empty, personality of at most 255 bytes.
\<close>

definition first_violation :: "Server \<Rightarrow> error option" where
  "first_violation s =
     (if FlavorRef s \<notin> {XSmall, Small, Medium, Large, XLarge, DblXLarge} then Some InvalidFlavor
      else if ImageRef s = 0 then Some MissingImage
      else if Server.Name s = [] then Some MissingName
      else if 255 < length (Personality s) then Some PersonalityTooLarge
      else None)"

subsection \<open>Well-formed JSON text\<close>

text \<open>
  A recogniser of the JSON grammar (RFC 8259) on bytes: a pushdown automaton whose stack
  holds the collections that are open. A separator is accepted only after a complete value
  and must be followed by a key (in an object) or a value (in an array); a closing brace or
  bracket is accepted only after a complete value or directly after the opening one, and
  pops the collection it closes. Inside a string every byte from 0x20 on other than the
  double quote and the backslash stands for itself.
\<close>

datatype ctx = InObject | InArray

datatype numst = NMinus | NZero | NInt | NDot | NFrac | NExp | NExpSign | NExpDigits

datatype mode =
    Value
  | ValueOrEnd
  | KeyOrEnd
  | KeyM
  | Colon
  | Str bool
  | Esc bool
  | Hex bool nat
  | Num numst
  | Lit string
  | Done

type_synonym jstate = "mode \<times> ctx list"

definition is_ws :: "char \<Rightarrow> bool" where
  "is_ws c = (c = CHR '' '' \<or> c = CHR 0x09 \<or> c = CHR 0x0A \<or> c = CHR 0x0D)"

definition is_digit :: "char \<Rightarrow> bool" where
  "is_digit c = (CHR ''0'' \<le> c \<and> c \<le> CHR ''9'')"

definition is_hex :: "char \<Rightarrow> bool" where
  "is_hex c = (is_digit c \<or> (CHR ''a'' \<le> c \<and> c \<le> CHR ''f'') \<or> (CHR ''A'' \<le> c \<and> c \<le> CHR ''F''))"

definition is_e :: "char \<Rightarrow> bool" where
  "is_e c = (c = CHR ''e'' \<or> c = CHR ''E'')"

fun num_accepting :: "numst \<Rightarrow> bool" where
  "num_accepting NZero = True"
| "num_accepting NInt = True"
| "num_accepting NFrac = True"
| "num_accepting NExpDigits = True"
| "num_accepting _ = False"

fun num_step :: "numst \<Rightarrow> char \<Rightarrow> numst option" where
  "num_step NMinus c = (if c = CHR ''0'' then Some NZero else if is_digit c then Some NInt else None)"
| "num_step NZero c = (if c = CHR ''.'' then Some NDot else if is_e c then Some NExp else None)"
| "num_step NInt c = (if is_digit c then Some NInt else if c = CHR ''.'' then Some NDot
                      else if is_e c then Some NExp else None)"
| "num_step NDot c = (if is_digit c then Some NFrac else None)"
| "num_step NFrac c = (if is_digit c then Some NFrac else if is_e c then Some NExp else None)"
| "num_step NExp c = (if c = CHR ''+'' \<or> c = CHR ''-'' then Some NExpSign
                      else if is_digit c then Some NExpDigits else None)"
| "num_step NExpSign c = (if is_digit c then Some NExpDigits else None)"
| "num_step NExpDigits c = (if is_digit c then Some NExpDigits else None)"

fun after_value :: "ctx list \<Rightarrow> char \<Rightarrow> jstate option" where
  "after_value stk c =
     (if is_ws c then Some (Done, stk)
      else case stk of
        [] \<Rightarrow> None
      | InObject # r \<Rightarrow>
          if c = CHR '','' then Some (KeyM, stk) else if c = CHR ''}'' then Some (Done, r) else None
      | InArray # r \<Rightarrow>
          if c = CHR '','' then Some (Value, stk) else if c = CHR '']'' then Some (Done, r) else None)"

fun start_value :: "ctx list \<Rightarrow> char \<Rightarrow> jstate option" where
  "start_value stk c =
     (if c = CHR 0x22 then Some (Str False, stk)
      else if c = CHR ''{'' then Some (KeyOrEnd, InObject # stk)
      else if c = CHR ''['' then Some (ValueOrEnd, InArray # stk)
      else if c = CHR ''-'' then Some (Num NMinus, stk)
      else if c = CHR ''0'' then Some (Num NZero, stk)
      else if is_digit c then Some (Num NInt, stk)
      else if c = CHR ''t'' then Some (Lit ''rue'', stk)
      else if c = CHR ''f'' then Some (Lit ''alse'', stk)
      else if c = CHR ''n'' then Some (Lit ''ull'', stk)
      else None)"

fun step :: "jstate \<Rightarrow> char \<Rightarrow> jstate option" where
  "step (Value, stk) c = (if is_ws c then Some (Value, stk) else start_value stk c)"
| "step (ValueOrEnd, stk) c =
     (if is_ws c then Some (ValueOrEnd, stk)
      else if c = CHR '']'' then Some (Done, tl stk) else start_value stk c)"
| "step (KeyOrEnd, stk) c =
     (if is_ws c then Some (KeyOrEnd, stk)
      else if c = CHR 0x22 then Some (Str True, stk)
      else if c = CHR ''}'' then Some (Done, tl stk) else None)"
| "step (KeyM, stk) c =
     (if is_ws c then Some (KeyM, stk)
      else if c = CHR 0x22 then Some (Str True, stk) else None)"
| "step (Colon, stk) c =
     (if is_ws c then Some (Colon, stk)
      else if c = CHR '':'' then Some (Value, stk) else None)"
| "step (Str k, stk) c =
     (if c = CHR 0x22 then Some (if k then Colon else Done, stk)
      else if c = CHR 0x5C then Some (Esc k, stk)
      else if c < CHR 0x20 then None
      else Some (Str k, stk))"
| "step (Esc k, stk) c =
     (if c \<in> set [CHR 0x22, CHR 0x5C, CHR ''/'', CHR ''b'', CHR ''f'', CHR ''n'', CHR ''r'', CHR ''t'']
      then Some (Str k, stk)
      else if c = CHR ''u'' then Some (Hex k 4, stk) else None)"
| "step (Hex k n, stk) c =
     (if is_hex c then Some (if n \<le> 1 then Str k else Hex k (n - 1), stk) else None)"
| "step (Num ns, stk) c =
     (case num_step ns c of
        Some ns' \<Rightarrow> Some (Num ns', stk)
      | None \<Rightarrow> if num_accepting ns then after_value stk c else None)"
| "step (Lit r, stk) c =
     (case r of
        [] \<Rightarrow> None
      | x # r' \<Rightarrow> if c = x then Some (if r' = [] then Done else Lit r', stk) else None)"
| "step (Done, stk) c = after_value stk c"

fun run :: "jstate option \<Rightarrow> string \<Rightarrow> jstate option" where
  "run st [] = st"
| "run st (c # cs) = (case st of None \<Rightarrow> None | Some p \<Rightarrow> run (step p c) cs)"

definition json_wf :: "string \<Rightarrow> bool" where
  "json_wf s =
     (case run (Some (Value, [])) s of
        Some (Done, []) \<Rightarrow> True
      | Some (Num ns, []) \<Rightarrow> num_accepting ns
      | _ \<Rightarrow> False)"

text \<open>A JSON text whose value is an object.\<close>

definition json_object_wf :: "string \<Rightarrow> bool" where
  "json_object_wf s = (json_wf s \<and> (case dropWhile is_ws s of c # _ \<Rightarrow> c = CHR ''{'' | [] \<Rightarrow> False))"

text \<open>
  \<open>ready stk st\<close>: in state \<open>st\<close> a complete value has just been read and the open
  collections are \<open>stk\<close>.
\<close>

fun ready :: "ctx list \<Rightarrow> jstate option \<Rightarrow> bool" where
  "ready stk (Some (Done, stk')) = (stk' = stk)"
| "ready stk (Some (Num ns, stk')) = (stk' = stk \<and> num_accepting ns)"
| "ready stk _ = False"

text \<open>A text whose first byte is a field separator or a closing brace.\<close>

fun starts_with_separator :: "string \<Rightarrow> bool" where
  "starts_with_separator [] = False"
| "starts_with_separator (c # cs) = (c = CHR '','' \<or> c = CHR ''}'')"

text \<open>
  A string that can stand between double quotes as it is: no double quote, no backslash
  and no control byte.
\<close>

definition clean :: "string \<Rightarrow> bool" where
  "clean str = list_all (\<lambda>c. c \<noteq> CHR 0x22 \<and> c \<noteq> CHR 0x5C \<and> \<not> c < CHR 0x20) str"

definition clean_strings :: "Server \<Rightarrow> bool" where
  "clean_strings s =
     (clean (Server.Name s) \<and> clean (Key s) \<and>
      list_all (\<lambda>(key, val). clean key \<and> clean val) (Metadata s) \<and>
      list_all (\<lambda>sg. clean (IDLink.Name sg)) (SecurityGroups s))"

subsection \<open>Fields of the payload\<close>

text \<open>
  A field is written to the buffer when one of the chunks written starts with the
  separator and the quoted name of the field.
\<close>

definition field_written :: "string \<Rightarrow> Buffer \<Rightarrow> bool" where
  "field_written label b = list_ex (prefix label) b"

definition optional_labels :: "string list" where
  \<open>optional_labels =
     ['',"personality":'', '',"key_name":'', '',"config_drive":'', '',"min_count":'', '',"max_count":'',
      '',"user_data":'', '',"metadata":'', '',"security_groups":'']\<close>

subsection \<open>Fields read back from the payload\<close>

text \<open>
  A string without double quote and without backslash: between double quotes it is one
  string token, whatever else it contains.
\<close>

definition quote_free :: "string \<Rightarrow> bool" where
  "quote_free str = list_all (\<lambda>c. c \<noteq> CHR 0x22 \<and> c \<noteq> CHR 0x5C) str"

definition quote_free_strings :: "Server \<Rightarrow> bool" where
  "quote_free_strings s =
     (quote_free (Server.Name s) \<and> quote_free (Key s) \<and> quote_free (Personality s) \<and>
      list_all (\<lambda>(key, val). quote_free key \<and> quote_free val) (Metadata s) \<and>
      list_all (\<lambda>sg. quote_free (IDLink.Name sg)) (SecurityGroups s))"

text \<open>
  The keys of a payload, read from its bytes alone. The scanner follows the string tokens
  (a backslash takes the next byte with it) and the nesting depth of braces and brackets,
  and records every string token that is followed by a colon, with the depth at which it
  stands. It does not look at separators, so it also reads a payload with a stray one. The
  fields of the payload are the keys at depth 2, those of the object inside the outer
  object.
\<close>

datatype scan_mode = Outside | Inside string | Escaped string | Closed string

type_synonym scan_state = "nat \<times> scan_mode \<times> (nat \<times> string) list"

fun scan_outside :: "nat \<Rightarrow> (nat \<times> string) list \<Rightarrow> char \<Rightarrow> scan_state" where
  "scan_outside d ks c =
     (if c = CHR 0x22 then (d, Inside [], ks)
      else if c = CHR ''{'' \<or> c = CHR ''['' then (d + 1, Outside, ks)
      else if c = CHR ''}'' \<or> c = CHR '']'' then (d - 1, Outside, ks)
      else (d, Outside, ks))"

fun scan_step :: "scan_state \<Rightarrow> char \<Rightarrow> scan_state" where
  "scan_step (d, Outside, ks) c = scan_outside d ks c"
| "scan_step (d, Inside cur, ks) c =
     (if c = CHR 0x22 then (d, Closed cur, ks)
      else if c = CHR 0x5C then (d, Escaped cur, ks)
      else (d, Inside (cur @ [c]), ks))"
| "scan_step (d, Escaped cur, ks) c = (d, Inside (cur @ [CHR 0x5C, c]), ks)"
| "scan_step (d, Closed cur, ks) c =
     (if is_ws c then (d, Closed cur, ks)
      else if c = CHR '':'' then (d, Outside, ks @ [(d, cur)])
      else scan_outside d ks c)"

fun scan :: "scan_state \<Rightarrow> string \<Rightarrow> scan_state" where
  "scan st [] = st"
| "scan st (c # cs) = scan (scan_step st c) cs"

definition payload_keys :: "string \<Rightarrow> (nat \<times> string) list" where
  "payload_keys p = snd (snd (scan (0, Outside, []) p))"

definition payload_fields :: "string \<Rightarrow> string list" where
  "payload_fields p = map snd (filter (\<lambda>(d, key). d = 2) (payload_keys p))"

definition has_field :: "string \<Rightarrow> string \<Rightarrow> bool" where
  "has_field name p = (name \<in> set (payload_fields p))"

text \<open>
  \<open>settled st d ks\<close>: the scanner is outside of a string token, or has just closed one,
  at depth \<open>d\<close> with the keys \<open>ks\<close> recorded.
\<close>

fun settled :: "scan_state \<Rightarrow> nat \<Rightarrow> (nat \<times> string) list \<Rightarrow> bool" where
  "settled (d', Outside, ks') d ks = (d' = d \<and> ks' = ks)"
| "settled (d', Closed cur, ks') d ks = (d' = d \<and> ks' = ks)"
| "settled _ d ks = False"

subsection \<open>Normalised iteration over the metadata\<close>

text \<open>The request whose metadata is visited in the order of its keys.\<close>

definition normalise :: "Server \<Rightarrow> Server" where
  "normalise s = s\<lparr>Metadata := sort_key fst (Metadata s)\<rparr>"

section \<open>The chunks that MarshalJSON writes\<close>

text \<open>
  Closed forms of what the iterations over the metadata and the security groups, and the
  code around them, append to the buffer; the lemmas below prove that the code writes
  exactly these.
\<close>

definition entry_text :: "string \<Rightarrow> string \<Rightarrow> string" where
  \<open>entry_text key val = ''"'' @ key @ ''": "'' @ val @ ''"''\<close>

fun entries_chunks :: "(string \<times> string) list \<Rightarrow> Buffer" where
  "entries_chunks [] = []"
| "entries_chunks [(key, val)] = [entry_text key val, ''}'']"
| "entries_chunks ((key, val) # e # es) = entry_text key val # '','' # entries_chunks (e # es)"

definition group_text :: "IDLink \<Rightarrow> string" where
  \<open>group_text sg = ''{"name": "'' @ IDLink.Name sg @ ''"}''\<close>

fun groups_chunks :: "IDLink list \<Rightarrow> Buffer" where
  "groups_chunks [] = []"
| "groups_chunks [sg] = [group_text sg, '']'']"
| "groups_chunks (sg # g # sgs) = group_text sg # '','' # groups_chunks (g # sgs)"

definition required_chunks :: "Server \<Rightarrow> Buffer" where
  \<open>required_chunks s =
     [''{"server":{'', ''"flavorRef":'' @ fmt_d (FlavorRef s), '',"imageRef":'' @ fmt_d (ImageRef s),
      '',"name":"'' @ Server.Name s @ ''"'']\<close>

definition personality_chunks :: "Server \<Rightarrow> Buffer" where
  \<open>personality_chunks s =
     (if Personality s \<noteq> [] then ['',"personality":"'' @ Personality s @ ''",''] else [])\<close>

definition optional_chunks :: "Server \<Rightarrow> Buffer" where
  \<open>optional_chunks s =
     (if Key s \<noteq> [] then ['',"key_name":"'' @ Key s @ ''"''] else []) @
     (if ConfigDrive s then ['',"config_drive": true''] else []) @
     (if 0 < MinCount s then ['',"min_count":'' @ fmt_d (MinCount s)] else []) @
     (if 0 < MaxCount s then ['',"max_count":'' @ fmt_d (MaxCount s)] else []) @
     (if UserData s \<noteq> [] then ['',"user_data": "",''] else []) @
     (if Metadata s \<noteq> [] then '',"metadata":{'' # entries_chunks (Metadata s) else []) @
     (if SecurityGroups s \<noteq> [] then '',"security_groups":['' # groups_chunks (SecurityGroups s) else [])\<close>

text \<open>
  The metadata entries as they stand in the payload, in the order of the list, with a
  separator between two entries; and the bytes of the payload before and after them, which
  do not depend on the order of the entries.
\<close>

fun entries_text :: "(string \<times> string) list \<Rightarrow> string" where
  "entries_text [] = []"
| "entries_text [(key, val)] = entry_text key val"
| "entries_text ((key, val) # e # es) = entry_text key val @ '','' @ entries_text (e # es)"

definition payload_before_entries :: "Server \<Rightarrow> string" where
  \<open>payload_before_entries s =
     concat (required_chunks s) @ concat (personality_chunks s) @
     concat (if Key s \<noteq> [] then ['',"key_name":"'' @ Key s @ ''"''] else []) @
     concat (if ConfigDrive s then ['',"config_drive": true''] else []) @
     concat (if 0 < MinCount s then ['',"min_count":'' @ fmt_d (MinCount s)] else []) @
     concat (if 0 < MaxCount s then ['',"max_count":'' @ fmt_d (MaxCount s)] else []) @
     concat (if UserData s \<noteq> [] then ['',"user_data": "",''] else []) @
     (if Metadata s \<noteq> [] then '',"metadata":{'' else [])\<close>

definition payload_after_entries :: "Server \<Rightarrow> string" where
  \<open>payload_after_entries s =
     (if Metadata s \<noteq> [] then ''}'' else []) @
     concat (if SecurityGroups s \<noteq> []
             then '',"security_groups":['' # groups_chunks (SecurityGroups s) else []) @
     ''}}''\<close>

section \<open>Requests used as concrete inputs\<close>

definition base_server :: Server where
  "base_server =
     \<lparr>ConfigDrive = False, FlavorRef = XSmall, ImageRef = UbuntuLucid10_04Kernel,
      MaxCount = 0, MinCount = 0, Name = ''a'', Key = [], Personality = [], UserData = [],
      SecurityGroups = [], Metadata = []\<rparr>"

definition long_personality :: string where
  "long_personality = replicate 256 (CHR ''p'')"

definition full_personality :: string where
  "full_personality = replicate 255 (CHR ''p'')"

definition hello_server :: Server where
  "hello_server = base_server\<lparr>UserData := ''hello''\<rparr>"

definition hello_buffer :: Buffer where
  \<open>hello_buffer =
     [''{"server":{'', ''"flavorRef":100'', '',"imageRef":1235'', '',"name":"a"'', '',"user_data": "",'',
      ''}}'']\<close>

definition tagged_server :: Server where
  "tagged_server = base_server\<lparr>Key := ''k'', Metadata := [(''role'', ''web'')]\<rparr>"

definition tagged_buffer :: Buffer where
  \<open>tagged_buffer =
     [''{"server":{'', ''"flavorRef":100'', '',"imageRef":1235'', '',"name":"a"'', '',"key_name":"k"'',
      '',"metadata":{'', ''"role": "web"'', ''}'', ''}}'']\<close>

definition role_server :: Server where
  "role_server = base_server\<lparr>Metadata := [(''role'', ''web'')]\<rparr>"

definition grouped_server :: Server where
  "grouped_server =
     base_server\<lparr>SecurityGroups :=
       [\<lparr>IDLink.Name = ''default'', ID = ''1'', Links = []\<rparr>,
        \<lparr>IDLink.Name = ''web'', ID = ''2'', Links = [\<lparr>HREF = ''h'', Rel = ''self''\<rparr>]\<rparr>]\<rparr>"

definition ab_server :: Server where
  "ab_server = base_server\<lparr>Metadata := [(''b'', ''2''), (''a'', ''1'')]\<rparr>"

definition ba_server :: Server where
  "ba_server = base_server\<lparr>Metadata := [(''a'', ''1''), (''b'', ''2'')]\<rparr>"

definition ab_buffer :: Buffer where
  \<open>ab_buffer =
     [''{"server":{'', ''"flavorRef":100'', '',"imageRef":1235'', '',"name":"a"'', '',"metadata":{'',
      ''"b": "2"'', '','', ''"a": "1"'', ''}'', ''}}'']\<close>

definition ba_buffer :: Buffer where
  \<open>ba_buffer =
     [''{"server":{'', ''"flavorRef":100'', '',"imageRef":1235'', '',"name":"a"'', '',"metadata":{'',
      ''"a": "1"'', '','', ''"b": "2"'', ''}'', ''}}'']\<close>

definition full_server :: Server where
  "full_server =
     base_server\<lparr>Key := ''k'', Metadata := [(''role'', ''web'')],
       SecurityGroups := [\<lparr>IDLink.Name = ''default'', ID = ''1'', Links = []\<rparr>]\<rparr>"

definition full_buffer :: Buffer where
  \<open>full_buffer =
     [''{"server":{'', ''"flavorRef":100'', '',"imageRef":1235'', '',"name":"a"'', '',"key_name":"k"'',
      '',"metadata":{'', ''"role": "web"'', ''}'', '',"security_groups":['', ''{"name": "default"}'', '']'',
      ''}}'']\<close>

definition personality_buffer :: Buffer where
  \<open>personality_buffer =
     [''{"server":{'', ''"flavorRef":100'', '',"imageRef":1235'', '',"name":"a"'', '',"personality":"x",'',
      ''}}'']\<close>

text \<open>Requests whose name carries double quotes, and the request the first one imitates.\<close>

definition injected_server :: Server where
  \<open>injected_server = base_server\<lparr>Name := ''a","key_name":"k''\<rparr>\<close>

definition keyed_server :: Server where
  "keyed_server = base_server\<lparr>Key := ''k''\<rparr>"

definition injected_role_server :: Server where
  \<open>injected_role_server =
     base_server\<lparr>Metadata := [(''role'', ''web'')],
       Name := ''a","personality":"p","key_name":"k","config_drive": true,"min_count":1,"max_count":1,"user_data": "u","security_groups":[],"x":"y''\<rparr>\<close>

definition personality_server :: Server where
  "personality_server = base_server\<lparr>Personality := ''x''\<rparr>"

definition failing_flavor_server :: Server where
  "failing_flavor_server = base_server\<lparr>FlavorRef := 99, ImageRef := 0\<rparr>"

section \<open>Validation and the shape of the buffer\<close>

lemma flavor_range:
  "(i < 100 \<or> 105 < i) = (i \<notin> {XSmall, Small, Medium, Large, XLarge, DblXLarge})"
  unfolding XSmall_def Small_def Medium_def Large_def XLarge_def DblXLarge_def by auto

lemma Encode_empty_src: "Encode dst [] = Some dst"
  by (simp add: Encode_def EncodeToString_def)

lemma EncodeToString_nonempty: "src \<noteq> [] \<Longrightarrow> EncodeToString src \<noteq> []"
  by (cases "map of_char src :: nat list" rule: b64_bytes.cases) (auto simp add: EncodeToString_def)

lemma MarshalJSON_buf_error: "first_violation s = Some e \<Longrightarrow> MarshalJSON_buf s = Inl e"
  unfolding first_violation_def MarshalJSON_buf_def Let_def flavor_range [symmetric]
  by (auto split: if_splits)

lemma metadata_loop_chunks:
  "cnt + length es = n \<Longrightarrow> metadata_loop n es cnt b = b @ entries_chunks es"
proof (induction es arbitrary: cnt b)
  case Nil
  then show ?case by simp
next
  case (Cons e es)
  obtain key val where e: "e = (key, val)" by (cases e)
  show ?case
  proof (cases es)
    case Nil
    with Cons.prems e show ?thesis by (simp add: WriteString_def entry_text_def)
  next
    case (Cons e' es')
    with Cons.prems have ne: "cnt + 1 \<noteq> n" and len: "(cnt + 1) + length es = n" by auto
    from Cons have ec: "entries_chunks ((key, val) # es) = entry_text key val # '','' # entries_chunks es"
      by simp
    show ?thesis
      using Cons.IH [OF len] ne e
      by (simp add: ec WriteString_def entry_text_def Let_def del: entries_chunks.simps)
  qed
qed

lemma groups_loop_chunks:
  "cnt + length sgs = n \<Longrightarrow> groups_loop n sgs cnt b = b @ groups_chunks sgs"
proof (induction sgs arbitrary: cnt b)
  case Nil
  then show ?case by simp
next
  case (Cons sg sgs)
  show ?case
  proof (cases sgs)
    case Nil
    with Cons.prems show ?thesis by (simp add: WriteString_def group_text_def)
  next
    case (Cons g' sgs')
    with Cons.prems have ne: "cnt + 1 \<noteq> n" and len: "(cnt + 1) + length sgs = n" by auto
    from Cons have gc: "groups_chunks (sg # sgs) = group_text sg # '','' # groups_chunks sgs"
      by simp
    show ?thesis
      using Cons.IH [OF len] ne
      by (simp add: gc WriteString_def group_text_def Let_def del: groups_chunks.simps)
  qed
qed

lemma optional_items_chunks: "optional_items s b = Inr (b @ optional_chunks s @ [''}}''])"
  unfolding optional_items_def optional_chunks_def Let_def WriteString_def
  by (simp add: Encode_empty_src metadata_loop_chunks groups_loop_chunks)

lemma MarshalJSON_buf_chunks:
  "first_violation s = None \<Longrightarrow>
   MarshalJSON_buf s = Inr (required_chunks s @ personality_chunks s @ optional_chunks s @ [''}}''])"
  unfolding first_violation_def MarshalJSON_buf_def Let_def flavor_range [symmetric]
  by (simp add: optional_items_chunks required_chunks_def personality_chunks_def
      WriteString_def NewBufferString_def split: if_splits)

lemma MarshalJSON_chunks:
  "first_violation s = None \<Longrightarrow>
   MarshalJSON s =
     (concat (required_chunks s) @ concat (personality_chunks s) @ concat (optional_chunks s) @ ''}}'',
      None)"
  by (simp add: MarshalJSON_def MarshalJSON_buf_chunks Bytes_def)

lemma MarshalJSON_error: "first_violation s = Some e \<Longrightarrow> MarshalJSON s = ([], Some e)"
  by (simp add: MarshalJSON_def MarshalJSON_buf_error)

lemma first_violation_of_buf: "MarshalJSON_buf s = Inr b \<Longrightarrow> first_violation s = None"
  by (cases "first_violation s") (simp_all add: MarshalJSON_buf_error)

lemma snd_MarshalJSON: "snd (MarshalJSON s) = first_violation s"
proof (cases "first_violation s")
  case None
  then show ?thesis by (simp add: MarshalJSON_chunks)
next
  case (Some e)
  then show ?thesis by (simp add: MarshalJSON_error)
qed

lemma concat_required_chunks:
  \<open>concat (required_chunks s) =
     ''{"server":{"flavorRef":'' @ fmt_d (FlavorRef s) @ '',"imageRef":'' @ fmt_d (ImageRef s) @
     '',"name":"'' @ Server.Name s @ ''"''\<close>
  by (simp add: required_chunks_def)

lemma optional_chunks_front: \<open>\<exists>front. optional_chunks s =
      front @ (if SecurityGroups s \<noteq> []
               then '',"security_groups":['' # groups_chunks (SecurityGroups s) else [])\<close>
    unfolding optional_chunks_def append_assoc [symmetric] by (rule exI, rule refl)

section \<open>Fields in the buffer\<close>

lemma entries_chunks_no_label:
  "c \<in> set (entries_chunks es) \<Longrightarrow> \<not> prefix (CHR '','' # CHR 0x22 # l) c"
  by (induction es rule: entries_chunks.induct) (auto simp add: entry_text_def)

lemma groups_chunks_no_label:
  "c \<in> set (groups_chunks sgs) \<Longrightarrow> \<not> prefix (CHR '','' # CHR 0x22 # l) c"
  by (induction sgs rule: groups_chunks.induct) (auto simp add: group_text_def)

lemma entries_chunks_mem:
  "(key, val) \<in> set es \<Longrightarrow> entry_text key val \<in> set (entries_chunks es)"
  by (induction es rule: entries_chunks.induct) auto

lemma groups_chunks_mem:
  "sg \<in> set sgs \<Longrightarrow> group_text sg \<in> set (groups_chunks sgs)"
  by (induction sgs rule: groups_chunks.induct) auto

lemma field_written_append [simp]:
  "field_written l (xs @ ys) = (field_written l xs \<or> field_written l ys)"
  by (simp add: field_written_def)

lemma field_written_Nil [simp]: "field_written l [] = False"
  by (simp add: field_written_def)

lemma field_written_Cons [simp]:
  "field_written l (c # cs) = (prefix l c \<or> field_written l cs)"
  by (simp add: field_written_def)

lemma field_written_entries [simp]:
  "field_written (CHR '','' # CHR 0x22 # l) (entries_chunks es) = False"
  using entries_chunks_no_label by (auto simp add: field_written_def list_ex_iff)

lemma field_written_groups [simp]:
  "field_written (CHR '','' # CHR 0x22 # l) (groups_chunks sgs) = False"
  using groups_chunks_no_label by (auto simp add: field_written_def list_ex_iff)

lemma mset_entries_chunks:
  "es \<noteq> [] \<Longrightarrow>
   mset (entries_chunks es) =
     image_mset (\<lambda>(key, val). entry_text key val) (mset es) +
     replicate_mset (length es - 1) '','' + {#''}''#}"
  by (induction es rule: entries_chunks.induct) simp_all

lemma same_map_sort_key:
  assumes "distinct (map fst xs)" and "distinct (map fst ys)" and "map_of xs = map_of ys"
  shows "mset xs = mset ys" and "sort_key fst xs = sort_key fst ys"
proof -
  from assms have "set xs = set ys" by (simp add: map_of_inject_set)
  moreover from assms have d: "distinct xs" "distinct ys" by (simp_all add: distinct_map)
  ultimately show m: "mset xs = mset ys" by (simp add: set_eq_iff_mset_eq_distinct)
  from assms(1) have "inj_on fst (set xs)" by (simp add: distinct_map)
  with m show "sort_key fst xs = sort_key fst ys" by (rule sort_key_eq_sort_key)
qed

section \<open>The recogniser on the chunks\<close>

lemma run_None [simp]: "run None xs = None"
  by (induction xs) simp_all

lemma run_append: "run st (xs @ ys) = run (run st xs) ys"
  by (induction xs arbitrary: st) (simp_all split: option.splits)

lemma run_Some_Cons: "run (Some p) (c # cs) = run (step p c) cs"
  by simp

lemma run_clean: "clean str \<Longrightarrow> run (Some (Str k, stk)) (str @ rest) = run (Some (Str k, stk)) rest"
  by (induction str) (simp_all add: clean_def)

lemma ready_comma:
  "ready (InObject # stk) st \<Longrightarrow> run st (CHR '','' # rest) = run (Some (KeyM, InObject # stk)) rest"
  by (cases "(InObject # stk, st)" rule: ready.cases)
     (auto simp add: is_ws_def is_digit_def is_e_def elim!: num_accepting.elims)

lemma ready_close_object:
  "ready (InObject # stk) st \<Longrightarrow> run st (CHR ''}'' # rest) = run (Some (Done, stk)) rest"
  by (cases "(InObject # stk, st)" rule: ready.cases)
     (auto simp add: is_ws_def is_digit_def is_e_def elim!: num_accepting.elims)

lemma digit_char_is_digit: "d < 10 \<Longrightarrow> is_digit (digit_char d)"
  by (simp add: is_digit_def digit_char_def less_eq_char_def)

lemma digit_char_nonzero: "0 < d \<Longrightarrow> d < 10 \<Longrightarrow> digit_char d \<noteq> CHR ''0''"
proof -
  assume d: "0 < d" "d < 10"
  then have "take_bit 8 (48 + d) = 48 + d" by (simp add: take_bit_nat_eq_self)
  with d show ?thesis by (simp add: digit_char_def char_of_eq_iff)
qed

lemma is_digit_other:
  "is_digit c \<Longrightarrow> \<not> is_ws c \<and> c \<noteq> CHR 0x22 \<and> c \<noteq> CHR ''{'' \<and> c \<noteq> CHR ''['' \<and> c \<noteq> CHR ''-''"
  by (auto simp add: is_digit_def is_ws_def less_eq_char_def)

lemma run_dec_nat_NInt:
  "run (Some (Num NInt, stk)) (dec_nat n @ rest) = run (Some (Num NInt, stk)) rest"
proof (induction n arbitrary: rest rule: dec_nat.induct)
  case (1 n)
  show ?case
  proof (cases "n < 10")
    case True
    then show ?thesis by (simp add: dec_nat.simps [of n] digit_char_is_digit)
  next
    case False
    then show ?thesis
      using "1.IH" [of "digit_char (n mod 10) # rest"]
      by (simp add: dec_nat.simps [of n] digit_char_is_digit)
  qed
qed

lemma run_dec_nat_Value:
  "0 < n \<Longrightarrow> run (Some (Value, stk)) (dec_nat n @ rest) = run (Some (Num NInt, stk)) rest"
proof (induction n arbitrary: rest rule: dec_nat.induct)
  case (1 n)
  show ?case
  proof (cases "n < 10")
    case True
    with "1.prems" show ?thesis
      using is_digit_other [of "digit_char n"]
      by (simp add: dec_nat.simps [of n] digit_char_is_digit digit_char_nonzero)
  next
    case False
    then have "0 < n div 10" by simp
    with False show ?thesis
      using "1.IH" [of "digit_char (n mod 10) # rest"]
      by (simp add: dec_nat.simps [of n] digit_char_is_digit)
  qed
qed

lemma run_dec_nat_NMinus:
  "0 < n \<Longrightarrow> run (Some (Num NMinus, stk)) (dec_nat n @ rest) = run (Some (Num NInt, stk)) rest"
proof (induction n arbitrary: rest rule: dec_nat.induct)
  case (1 n)
  show ?case
  proof (cases "n < 10")
    case True
    with "1.prems" show ?thesis
      by (simp add: dec_nat.simps [of n] digit_char_is_digit digit_char_nonzero)
  next
    case False
    then have "0 < n div 10" by simp
    with False show ?thesis
      using "1.IH" [of "digit_char (n mod 10) # rest"]
      by (simp add: dec_nat.simps [of n] digit_char_is_digit)
  qed
qed

lemma run_fmt_d:
  "i \<noteq> 0 \<Longrightarrow> run (Some (Value, stk)) (fmt_d i @ rest) = run (Some (Num NInt, stk)) rest"
  by (simp add: fmt_d_def run_dec_nat_Value run_dec_nat_NMinus is_ws_def)

lemma ready_Num [simp]: "ready stk (Some (Num NInt, stk))"
  by simp

lemma ready_Done [simp]: "ready stk (Some (Done, stk))"
  by simp

lemma run_entries:
  "es \<noteq> [] \<Longrightarrow> list_all (\<lambda>(key, val). clean key \<and> clean val) es \<Longrightarrow> m = KeyOrEnd \<or> m = KeyM \<Longrightarrow>
   run (Some (m, InObject # stk)) (concat (entries_chunks es)) = Some (Done, stk)"
proof (induction es arbitrary: m rule: entries_chunks.induct)
  case 1
  then show ?case by simp
next
  case (2 key val)
  then show ?case
    using run_clean [of key True "InObject # stk"] run_clean [of val False "InObject # stk"]
    by (auto simp add: entry_text_def is_ws_def)
next
  case (3 key val e es)
  then have "run (Some (KeyM, InObject # stk)) (concat (entries_chunks (e # es))) = Some (Done, stk)"
    by simp
  moreover have "concat (entries_chunks ((key, val) # e # es)) =
      entry_text key val @ '','' @ concat (entries_chunks (e # es))"
    by simp
  ultimately show ?case
    using "3.prems" run_clean [of key True "InObject # stk"] run_clean [of val False "InObject # stk"]
    by (auto simp add: entry_text_def is_ws_def simp del: entries_chunks.simps)
qed

lemma run_groups:
  "sgs \<noteq> [] \<Longrightarrow> list_all (\<lambda>sg. clean (IDLink.Name sg)) sgs \<Longrightarrow> m = ValueOrEnd \<or> m = Value \<Longrightarrow>
   run (Some (m, InArray # stk)) (concat (groups_chunks sgs)) = Some (Done, stk)"
proof (induction sgs arbitrary: m rule: groups_chunks.induct)
  case 1
  then show ?case by simp
next
  case (2 sg)
  then show ?case
    using run_clean [of "IDLink.Name sg" False "InObject # InArray # stk"]
    by (auto simp add: group_text_def is_ws_def)
next
  case (3 sg g sgs)
  then have "run (Some (Value, InArray # stk)) (concat (groups_chunks (g # sgs))) = Some (Done, stk)"
    by simp
  moreover have "concat (groups_chunks (sg # g # sgs)) =
      group_text sg @ '','' @ concat (groups_chunks (g # sgs))"
    by simp
  ultimately show ?case
    using "3.prems" run_clean [of "IDLink.Name sg" False "InObject # InArray # stk"]
    by (auto simp add: group_text_def is_ws_def simp del: groups_chunks.simps)
qed

lemma run_required:
  assumes "FlavorRef s \<noteq> 0" and "ImageRef s \<noteq> 0" and "clean (Server.Name s)"
  shows "run (Some (Value, [])) (concat (required_chunks s)) = Some (Done, [InObject, InObject])"
  using assms run_clean [of "Server.Name s" False "[InObject, InObject]" "[CHR 0x22]"]
  by (simp add: required_chunks_def run_fmt_d is_ws_def is_digit_def is_e_def less_eq_char_def)

lemma run_key_name:
  assumes "ready (InObject # stk) st" and "clean k"
  shows \<open>ready (InObject # stk) (run st (concat (if k \<noteq> [] then ['',"key_name":"'' @ k @ ''"''] else [])))\<close>
  using assms run_clean [of k False "InObject # stk" "[CHR 0x22]"]
  by (simp add: ready_comma run_Some_Cons is_ws_def del: run.simps(2))

lemma run_config_drive:
  assumes "ready (InObject # stk) st"
  shows \<open>ready (InObject # stk) (run st (concat (if c then ['',"config_drive": true''] else [])))\<close>
  using assms by (simp add: ready_comma run_Some_Cons is_ws_def is_digit_def less_eq_char_def del: run.simps(2))

lemma run_min_count:
  assumes "ready (InObject # stk) st"
  shows \<open>ready (InObject # stk) (run st (concat (if 0 < i then ['',"min_count":'' @ fmt_d i] else [])))\<close>
  using assms run_fmt_d [of i "InObject # stk" "[]"] by (simp add: ready_comma run_Some_Cons is_ws_def del: run.simps(2))

lemma run_max_count:
  assumes "ready (InObject # stk) st"
  shows \<open>ready (InObject # stk) (run st (concat (if 0 < i then ['',"max_count":'' @ fmt_d i] else [])))\<close>
  using assms run_fmt_d [of i "InObject # stk" "[]"] by (simp add: ready_comma run_Some_Cons is_ws_def del: run.simps(2))

lemma run_metadata:
  assumes "ready (InObject # stk) st" and "list_all (\<lambda>(key, val). clean key \<and> clean val) es"
  shows \<open>ready (InObject # stk)
           (run st (concat (if es \<noteq> [] then '',"metadata":{'' # entries_chunks es else [])))\<close>
  using assms run_entries [of es KeyOrEnd "InObject # stk"]
  by (simp add: ready_comma run_Some_Cons is_ws_def del: run.simps(2))

lemma run_security_groups:
  assumes "ready (InObject # stk) st" and "list_all (\<lambda>sg. clean (IDLink.Name sg)) sgs"
  shows \<open>ready (InObject # stk)
           (run st (concat (if sgs \<noteq> [] then '',"security_groups":['' # groups_chunks sgs else [])))\<close>
  using assms run_groups [of sgs ValueOrEnd "InObject # stk"]
  by (simp add: ready_comma run_Some_Cons is_ws_def del: run.simps(2))

lemma run_optional:
  assumes st: "ready (InObject # stk) st" and cl: "clean_strings s" and ud: "UserData s = []"
  shows "ready (InObject # stk) (run st (concat (optional_chunks s)))"
proof -
  from cl have k: "clean (Key s)"
    and m: "list_all (\<lambda>(key, val). clean key \<and> clean val) (Metadata s)"
    and g: "list_all (\<lambda>sg. clean (IDLink.Name sg)) (SecurityGroups s)"
    by (simp_all add: clean_strings_def)
  note r1 = run_key_name [OF st k]
  note r2 = run_config_drive [OF r1, of "ConfigDrive s"]
  note r3 = run_min_count [OF r2, of "MinCount s"]
  note r4 = run_max_count [OF r3, of "MaxCount s"]
  note r5 = run_metadata [OF r4 m]
  note r6 = run_security_groups [OF r5 g]
  show ?thesis
    unfolding optional_chunks_def concat_append run_append using r6 ud by simp
qed

lemma run_close:
  "ready [InObject, InObject] st \<Longrightarrow> run st ''}}'' = Some (Done, [])"
  by (simp add: ready_close_object run_Some_Cons is_ws_def del: run.simps(2))

lemma run_personality:
  assumes "ready (InObject # stk) st" and "clean p"
  shows \<open>run st ('',"personality":"'' @ p @ ''",'') = Some (KeyM, InObject # stk)\<close>
  using assms run_clean [of p False "InObject # stk" "[CHR 0x22, CHR '','']"]
  by (simp add: ready_comma run_Some_Cons is_ws_def del: run.simps(2))

lemma run_user_data:
  assumes "ready (InObject # stk) st"
  shows \<open>run st '',"user_data": "",'' = Some (KeyM, InObject # stk)\<close>
  using assms by (simp add: ready_comma run_Some_Cons is_ws_def del: run.simps(2))

lemma starts_with_separator_append:
  "xs = [] \<or> starts_with_separator xs \<Longrightarrow> starts_with_separator ys \<Longrightarrow> starts_with_separator (xs @ ys)"
  by (cases xs) auto

lemma run_KeyM_starts_with_separator:
  "starts_with_separator xs \<Longrightarrow> run (Some (KeyM, stk)) xs = None"
  by (cases xs) (auto simp add: is_ws_def)

lemma tail_starts_with_separator:
  \<open>starts_with_separator
     (concat (if es \<noteq> [] then '',"metadata":{'' # entries_chunks es else []) @
      concat (if sgs \<noteq> [] then '',"security_groups":['' # groups_chunks sgs else []) @ ''}}'')\<close>
  by (intro starts_with_separator_append) simp_all

lemma optional_starts_with_separator:
  "starts_with_separator (concat (optional_chunks s) @ ''}}'')"
  unfolding optional_chunks_def concat_append append_assoc
  by (intro starts_with_separator_append) simp_all

lemma well_formed_when_clean:
  assumes v: "first_violation s = None" and p: "Personality s = []" and ud: "UserData s = []"
    and cl: "clean_strings s"
  shows "snd (MarshalJSON s) = None \<and> json_object_wf (fst (MarshalJSON s))"
proof -
  from v have f: "FlavorRef s \<noteq> 0" and i: "ImageRef s \<noteq> 0"
    by (auto simp add: first_violation_def XSmall_def Small_def Medium_def Large_def XLarge_def DblXLarge_def
        split: if_splits)
  from cl have n: "clean (Server.Name s)" by (simp add: clean_strings_def)
  have buf: "MarshalJSON_buf s = Inr (required_chunks s @ optional_chunks s @ [''}}''])"
    using MarshalJSON_buf_chunks [OF v] p by (simp add: personality_chunks_def)
  have r: "ready [InObject, InObject] (run (Some (Value, [])) (concat (required_chunks s)))"
    using run_required [OF f i n] by simp
  have "run (Some (Value, [])) (concat (required_chunks s @ optional_chunks s @ [''}}''])) = Some (Done, [])"
    using run_close [OF run_optional [OF r cl ud]] by (simp add: run_append)
  moreover have "\<exists>rest. concat (required_chunks s @ optional_chunks s @ [''}}'']) = CHR ''{'' # rest"
    by (simp add: required_chunks_def)
  ultimately show ?thesis
    using buf by (auto simp add: MarshalJSON_def Bytes_def json_object_wf_def json_wf_def is_ws_def)
qed

lemma personality_malformed:
  assumes v: "first_violation s = None" and p: "Personality s \<noteq> []"
    and n: "clean (Server.Name s)" and cp: "clean (Personality s)"
  shows "\<not> json_wf (fst (MarshalJSON s))"
proof -
  from v have f: "FlavorRef s \<noteq> 0" and i: "ImageRef s \<noteq> 0"
    by (auto simp add: first_violation_def XSmall_def Small_def Medium_def Large_def XLarge_def DblXLarge_def
        split: if_splits)
  have r: "ready [InObject, InObject] (run (Some (Value, [])) (concat (required_chunks s)))"
    using run_required [OF f i n] by simp
  have "run (Some (Value, [])) (fst (MarshalJSON s)) =
        run (run (run (Some (Value, [])) (concat (required_chunks s))) (concat (personality_chunks s)))
          (concat (optional_chunks s) @ ''}}'')"
    by (simp only: MarshalJSON_chunks [OF v] fst_conv run_append)
  also have "\<dots> = run (Some (KeyM, [InObject, InObject])) (concat (optional_chunks s) @ ''}}'')"
    using run_personality [OF r cp] p by (simp add: personality_chunks_def)
  also have "\<dots> = None"
    using optional_starts_with_separator by (rule run_KeyM_starts_with_separator)
  finally show ?thesis by (simp add: json_wf_def)
qed

lemma user_data_malformed:
  assumes v: "first_violation s = None" and p: "Personality s = []" and u: "UserData s \<noteq> []"
    and n: "clean (Server.Name s)" and k: "clean (Key s)"
  shows "\<not> json_wf (fst (MarshalJSON s))"
proof -
  from v have f: "FlavorRef s \<noteq> 0" and i: "ImageRef s \<noteq> 0"
    by (auto simp add: first_violation_def XSmall_def Small_def Medium_def Large_def XLarge_def DblXLarge_def
        split: if_splits)
  have r: "ready [InObject, InObject] (run (Some (Value, [])) (concat (required_chunks s)))"
    using run_required [OF f i n] by simp
  note r1 = run_key_name [OF r k]
  note r2 = run_config_drive [OF r1, of "ConfigDrive s"]
  note r3 = run_min_count [OF r2, of "MinCount s"]
  note r4 = run_max_count [OF r3, of "MaxCount s"]
  note r5 = run_user_data [OF r4]
  have pc: "concat (personality_chunks s) = []" using p by (simp add: personality_chunks_def)
  have uc: \<open>concat (if UserData s \<noteq> [] then ['',"user_data": "",''] else []) = '',"user_data": "",''\<close>
    using u by simp
  have \<open>run (Some (Value, [])) (fst (MarshalJSON s)) =
      run (Some (KeyM, [InObject, InObject]))
        (concat (if Metadata s \<noteq> [] then '',"metadata":{'' # entries_chunks (Metadata s) else []) @
         concat (if SecurityGroups s \<noteq> []
                 then '',"security_groups":['' # groups_chunks (SecurityGroups s) else []) @ ''}}'')\<close>
    by (simp only: MarshalJSON_chunks [OF v] fst_conv optional_chunks_def concat_append append_assoc
        run_append pc uc run.simps(1) r5)
  also have "\<dots> = None"
    using tail_starts_with_separator by (rule run_KeyM_starts_with_separator)
  finally show ?thesis by (simp add: json_wf_def)
qed

section \<open>The scanner on the chunks\<close>

lemma scan_append: "scan st (xs @ ys) = scan (scan st xs) ys"
  by (induction xs arbitrary: st) simp_all

lemma scan_inside:
  "quote_free str \<Longrightarrow> scan (d, Inside cur, ks) (str @ rest) = scan (d, Inside (cur @ str), ks) rest"
  by (induction str arbitrary: cur) (simp_all add: quote_free_def)

lemma settled_comma: "settled st d ks \<Longrightarrow> scan st (CHR '','' # rest) = scan (d, Outside, ks) rest"
  by (cases "(st, d, ks)" rule: settled.cases) (auto simp add: is_ws_def)

lemma settled_close_brace:
  "settled st (Suc d) ks \<Longrightarrow> scan st (CHR ''}'' # rest) = scan (d, Outside, ks) rest"
  by (cases "(st, Suc d, ks)" rule: settled.cases) (auto simp add: is_ws_def)

lemma settled_close_bracket:
  "settled st (Suc d) ks \<Longrightarrow> scan st (CHR '']'' # rest) = scan (d, Outside, ks) rest"
  by (cases "(st, Suc d, ks)" rule: settled.cases) (auto simp add: is_ws_def)

lemma is_digit_plain:
  "is_digit c \<Longrightarrow> scan_outside d ks c = (d, Outside, ks)"
  by (auto simp add: is_digit_def less_eq_char_def)

lemma scan_dec_nat: "scan (d, Outside, ks) (dec_nat n @ rest) = scan (d, Outside, ks) rest"
proof (induction n arbitrary: rest rule: dec_nat.induct)
  case (1 n)
  show ?case
  proof (cases "n < 10")
    case True
    then show ?thesis
      using is_digit_plain [OF digit_char_is_digit [of n]] by (simp add: dec_nat.simps [of n])
  next
    case False
    then show ?thesis
      using "1.IH" [of "digit_char (n mod 10) # rest"]
        is_digit_plain [OF digit_char_is_digit [of "n mod 10"]]
      by (simp add: dec_nat.simps [of n])
  qed
qed

lemma scan_fmt_d: "scan (d, Outside, ks) (fmt_d i @ rest) = scan (d, Outside, ks) rest"
  by (simp add: fmt_d_def scan_dec_nat)

lemma settled_Outside [simp]: "settled (d, Outside, ks) d ks"
  by simp

lemma settled_Closed [simp]: "settled (d, Closed cur, ks) d ks"
  by simp

lemma scan_entries:
  "es \<noteq> [] \<Longrightarrow> list_all (\<lambda>(key, val). quote_free key \<and> quote_free val) es \<Longrightarrow>
   scan (Suc d, Outside, ks) (concat (entries_chunks es)) =
     (d, Outside, ks @ map (\<lambda>(key, val). (Suc d, key)) es)"
proof (induction es arbitrary: ks rule: entries_chunks.induct)
  case 1
  then show ?case by simp
next
  case (2 key val)
  then show ?case
    using scan_inside [of key "Suc d" "[]"] scan_inside [of val "Suc d" "[]"]
    by (simp add: entry_text_def is_ws_def)
next
  case (3 key val e es)
  then have "scan (Suc d, Outside, ks @ [(Suc d, key)]) (concat (entries_chunks (e # es))) =
      (d, Outside, (ks @ [(Suc d, key)]) @ map (\<lambda>(key, val). (Suc d, key)) (e # es))"
    by simp
  moreover have "concat (entries_chunks ((key, val) # e # es)) =
      entry_text key val @ '','' @ concat (entries_chunks (e # es))"
    by simp
  ultimately show ?case
    using "3.prems" scan_inside [of key "Suc d" "[]"] scan_inside [of val "Suc d" "[]"]
    by (simp add: entry_text_def is_ws_def del: entries_chunks.simps)
qed

lemma scan_groups:
  "sgs \<noteq> [] \<Longrightarrow> list_all (\<lambda>sg. quote_free (IDLink.Name sg)) sgs \<Longrightarrow>
   scan (Suc d, Outside, ks) (concat (groups_chunks sgs)) =
     (d, Outside, ks @ map (\<lambda>sg. (Suc (Suc d), ''name'')) sgs)"
proof (induction sgs arbitrary: ks rule: groups_chunks.induct)
  case 1
  then show ?case by simp
next
  case (2 sg)
  then show ?case
    using scan_inside [of "IDLink.Name sg" "Suc (Suc d)" "[]"]
    by (simp add: group_text_def is_ws_def)
next
  case (3 sg g sgs)
  then have "scan (Suc d, Outside, ks @ [(Suc (Suc d), ''name'')]) (concat (groups_chunks (g # sgs))) =
      (d, Outside, (ks @ [(Suc (Suc d), ''name'')]) @ map (\<lambda>sg. (Suc (Suc d), ''name'')) (g # sgs))"
    by simp
  moreover have "concat (groups_chunks (sg # g # sgs)) =
      group_text sg @ '','' @ concat (groups_chunks (g # sgs))"
    by simp
  ultimately show ?case
    using "3.prems" scan_inside [of "IDLink.Name sg" "Suc (Suc d)" "[]"]
    by (simp add: group_text_def is_ws_def del: groups_chunks.simps)
qed

lemma scan_required:
  assumes "quote_free (Server.Name s)"
  shows "scan (0, Outside, []) (concat (required_chunks s)) =
    (2, Closed (Server.Name s), [(1, ''server''), (2, ''flavorRef''), (2, ''imageRef''), (2, ''name'')])"
  using assms scan_inside [of "Server.Name s" 2 "[]"]
  by (simp add: required_chunks_def scan_fmt_d is_ws_def numeral_2_eq_2)

lemma scan_triple: "scan (d, m, ks) (c # cs) = scan (scan_step (d, m, ks) c) cs"
  by simp

lemma scan_personality:
  assumes "settled st d ks" and "quote_free p"
  shows \<open>settled (scan st (concat (if p \<noteq> [] then ['',"personality":"'' @ p @ ''",''] else [])))
           d (ks @ (if p \<noteq> [] then [(d, ''personality'')] else []))\<close>
  using assms scan_inside [of p d "[]"]
  by (simp add: settled_comma scan_triple is_ws_def del: scan.simps(2))

lemma scan_key_name:
  assumes "settled st d ks" and "quote_free k"
  shows \<open>settled (scan st (concat (if k \<noteq> [] then ['',"key_name":"'' @ k @ ''"''] else [])))
           d (ks @ (if k \<noteq> [] then [(d, ''key_name'')] else []))\<close>
  using assms scan_inside [of k d "[]"]
  by (simp add: settled_comma scan_triple is_ws_def del: scan.simps(2))

lemma scan_config_drive:
  assumes "settled st d ks"
  shows \<open>settled (scan st (concat (if c then ['',"config_drive": true''] else [])))
           d (ks @ (if c then [(d, ''config_drive'')] else []))\<close>
  using assms
  by (simp add: settled_comma scan_triple is_ws_def del: scan.simps(2))

lemma scan_min_count:
  assumes "settled st d ks"
  shows \<open>settled (scan st (concat (if 0 < i then ['',"min_count":'' @ fmt_d i] else [])))
           d (ks @ (if 0 < i then [(d, ''min_count'')] else []))\<close>
  using assms scan_fmt_d [of d _ i "[]"]
  by (simp add: settled_comma scan_triple is_ws_def del: scan.simps(2))

lemma scan_max_count:
  assumes "settled st d ks"
  shows \<open>settled (scan st (concat (if 0 < i then ['',"max_count":'' @ fmt_d i] else [])))
           d (ks @ (if 0 < i then [(d, ''max_count'')] else []))\<close>
  using assms scan_fmt_d [of d _ i "[]"]
  by (simp add: settled_comma scan_triple is_ws_def del: scan.simps(2))

lemma scan_user_data:
  assumes "settled st d ks"
  shows \<open>settled (scan st (concat (if u \<noteq> [] then ['',"user_data": "",''] else [])))
           d (ks @ (if u \<noteq> [] then [(d, ''user_data'')] else []))\<close>
  using assms
  by (simp add: settled_comma scan_triple is_ws_def del: scan.simps(2))

lemma scan_metadata:
  assumes "settled st d ks" and "list_all (\<lambda>(key, val). quote_free key \<and> quote_free val) es"
  shows \<open>settled (scan st (concat (if es \<noteq> [] then '',"metadata":{'' # entries_chunks es else [])))
           d (ks @ (if es \<noteq> [] then (d, ''metadata'') # map (\<lambda>(key, val). (Suc d, key)) es else []))\<close>
  using assms scan_entries [of es d "ks @ [(d, ''metadata'')]"]
  by (simp add: settled_comma scan_triple is_ws_def del: scan.simps(2))

lemma scan_security_groups:
  assumes "settled st d ks" and "list_all (\<lambda>sg. quote_free (IDLink.Name sg)) sgs"
  shows \<open>settled (scan st (concat (if sgs \<noteq> [] then '',"security_groups":['' # groups_chunks sgs else [])))
           d (ks @ (if sgs \<noteq> []
                    then (d, ''security_groups'') # map (\<lambda>sg. (Suc (Suc d), ''name'')) sgs else []))\<close>
  using assms scan_groups [of sgs d "ks @ [(d, ''security_groups'')]"]
  by (simp add: settled_comma scan_triple is_ws_def del: scan.simps(2))

lemma scan_close:
  "settled st 2 ks \<Longrightarrow> scan st ''}}'' = (0, Outside, ks)"
  using settled_close_brace [of st 1 ks "''}''"]
  by (simp add: numeral_2_eq_2 scan_triple del: scan.simps(2))

lemma payload_keys_MarshalJSON:
  assumes v: "first_violation s = None" and q: "quote_free_strings s"
  shows "payload_keys (fst (MarshalJSON s)) =
    [(1, ''server''), (2, ''flavorRef''), (2, ''imageRef''), (2, ''name'')] @
    (if Personality s \<noteq> [] then [(2, ''personality'')] else []) @
    (if Key s \<noteq> [] then [(2, ''key_name'')] else []) @
    (if ConfigDrive s then [(2, ''config_drive'')] else []) @
    (if 0 < MinCount s then [(2, ''min_count'')] else []) @
    (if 0 < MaxCount s then [(2, ''max_count'')] else []) @
    (if UserData s \<noteq> [] then [(2, ''user_data'')] else []) @
    (if Metadata s \<noteq> [] then (2, ''metadata'') # map (\<lambda>(key, val). (3, key)) (Metadata s) else []) @
    (if SecurityGroups s \<noteq> []
     then (2, ''security_groups'') # map (\<lambda>sg. (4, ''name'')) (SecurityGroups s) else [])"
proof -
  from q have n: "quote_free (Server.Name s)" and k: "quote_free (Key s)"
    and p: "quote_free (Personality s)"
    and m: "list_all (\<lambda>(key, val). quote_free key \<and> quote_free val) (Metadata s)"
    and g: "list_all (\<lambda>sg. quote_free (IDLink.Name sg)) (SecurityGroups s)"
    by (simp_all add: quote_free_strings_def)
  have r0: "settled (scan (0, Outside, []) (concat (required_chunks s))) 2
      [(1, ''server''), (2, ''flavorRef''), (2, ''imageRef''), (2, ''name'')]"
    by (simp add: scan_required [OF n])
  note r1 = scan_personality [OF r0 p]
  note r2 = scan_key_name [OF r1 k]
  note r3 = scan_config_drive [OF r2, of "ConfigDrive s"]
  note r4 = scan_min_count [OF r3, of "MinCount s"]
  note r5 = scan_max_count [OF r4, of "MaxCount s"]
  note r6 = scan_user_data [OF r5, of "UserData s"]
  note r7 = scan_metadata [OF r6 m]
  note r8 = scan_security_groups [OF r7 g]
  note r9 = scan_close [OF r8]
  have \<open>scan (0, Outside, []) (fst (MarshalJSON s)) =
      scan (scan (scan (scan (scan (scan (scan (scan (scan (scan (0, Outside, [])
        (concat (required_chunks s)))
        (concat (if Personality s \<noteq> [] then ['',"personality":"'' @ Personality s @ ''",''] else [])))
        (concat (if Key s \<noteq> [] then ['',"key_name":"'' @ Key s @ ''"''] else [])))
        (concat (if ConfigDrive s then ['',"config_drive": true''] else [])))
        (concat (if 0 < MinCount s then ['',"min_count":'' @ fmt_d (MinCount s)] else [])))
        (concat (if 0 < MaxCount s then ['',"max_count":'' @ fmt_d (MaxCount s)] else [])))
        (concat (if UserData s \<noteq> [] then ['',"user_data": "",''] else [])))
        (concat (if Metadata s \<noteq> [] then '',"metadata":{'' # entries_chunks (Metadata s) else [])))
        (concat (if SecurityGroups s \<noteq> []
                 then '',"security_groups":['' # groups_chunks (SecurityGroups s) else [])))
        ''}}''\<close>
    by (simp only: MarshalJSON_chunks [OF v] fst_conv personality_chunks_def optional_chunks_def
        concat_append append_assoc scan_append)
  then show ?thesis
    by (simp only: r9 payload_keys_def snd_conv numeral_2_eq_2 numeral_3_eq_3 append_assoc)
       (simp add: eval_nat_numeral)
qed

lemma filter_depth_entries:
  "filter (\<lambda>(d, key). d = (2::nat)) (map (\<lambda>(key, val). (3, key)) es) = []"
  by (induction es) auto

lemma filter_depth_groups:
  "filter (\<lambda>(d, key). d = (2::nat)) (map (\<lambda>sg. (4, ''name'')) sgs) = []"
  by (induction sgs) auto

lemma payload_fields_MarshalJSON:
  assumes "first_violation s = None" and "quote_free_strings s"
  shows "payload_fields (fst (MarshalJSON s)) =
    [''flavorRef'', ''imageRef'', ''name''] @
    (if Personality s \<noteq> [] then [''personality''] else []) @
    (if Key s \<noteq> [] then [''key_name''] else []) @
    (if ConfigDrive s then [''config_drive''] else []) @
    (if 0 < MinCount s then [''min_count''] else []) @
    (if 0 < MaxCount s then [''max_count''] else []) @
    (if UserData s \<noteq> [] then [''user_data''] else []) @
    (if Metadata s \<noteq> [] then [''metadata''] else []) @
    (if SecurityGroups s \<noteq> [] then [''security_groups''] else [])"
  unfolding payload_fields_def payload_keys_MarshalJSON [OF assms]
  by (simp add: filter_depth_entries filter_depth_groups)

lemma concat_entries_chunks: "es \<noteq> [] \<Longrightarrow> concat (entries_chunks es) = entries_text es @ ''}''"
  by (induction es rule: entries_chunks.induct) simp_all

lemma payload_split:
  assumes "first_violation t = None"
  shows "fst (MarshalJSON t) =
    payload_before_entries t @ entries_text (Metadata t) @ payload_after_entries t"
proof -
  have md: \<open>concat (if Metadata t \<noteq> [] then '',"metadata":{'' # entries_chunks (Metadata t) else []) =
      (if Metadata t \<noteq> [] then '',"metadata":{'' else []) @ entries_text (Metadata t) @
      (if Metadata t \<noteq> [] then ''}'' else [])\<close>
    by (cases "Metadata t = []") (simp_all add: concat_entries_chunks)
  show ?thesis
    by (simp only: MarshalJSON_chunks [OF assms] fst_conv optional_chunks_def
        payload_before_entries_def payload_after_entries_def concat_append append_assoc md)
qed

lemma payload_split_same_map:
  assumes d: "distinct (map fst (Metadata s))" "distinct (map fst (Metadata s'))"
    and m: "map_of (Metadata s) = map_of (Metadata s')"
    and e: "s' = s\<lparr>Metadata := Metadata s'\<rparr>"
    and v: "first_violation s = None"
  shows "fst (MarshalJSON s) =
      payload_before_entries s @ entries_text (Metadata s) @ payload_after_entries s"
    and "fst (MarshalJSON s') =
      payload_before_entries s @ entries_text (Metadata s') @ payload_after_entries s"
    and "fst (MarshalJSON (normalise s)) =
      payload_before_entries s @ entries_text (sort_key fst (Metadata s)) @ payload_after_entries s"
    and "fst (MarshalJSON (normalise s')) =
      payload_before_entries s @ entries_text (sort_key fst (Metadata s')) @ payload_after_entries s"
proof -
  have ms: "mset (Metadata s) = mset (Metadata s')" by (rule same_map_sort_key(1) [OF d m])
  then have "length (Metadata s) = length (Metadata s')" by (rule mset_eq_length)
  then have ne: "(Metadata s' = []) = (Metadata s = [])" by auto
  have f: "Key s' = Key s" "ConfigDrive s' = ConfigDrive s" "MinCount s' = MinCount s"
    "MaxCount s' = MaxCount s" "UserData s' = UserData s" "SecurityGroups s' = SecurityGroups s"
    by (subst e, simp)+
  have r: "required_chunks s' = required_chunks s" by (subst e) (simp add: required_chunks_def)
  have p: "personality_chunks s' = personality_chunks s"
    by (subst e) (simp add: personality_chunks_def)
  have fv: "first_violation s' = first_violation s" by (subst e) (simp add: first_violation_def)
  have b': "payload_before_entries s' = payload_before_entries s"
    by (simp only: payload_before_entries_def f r p ne)
  have a': "payload_after_entries s' = payload_after_entries s"
    by (simp only: payload_after_entries_def f ne)
  have nn: "(sort_key fst (Metadata t) = []) = (Metadata t = [])" for t :: Server
    by (metis length_0_conv length_sort)
  have bn: "payload_before_entries (normalise t) = payload_before_entries t" for t
    by (simp add: payload_before_entries_def normalise_def required_chunks_def personality_chunks_def nn)
  have an: "payload_after_entries (normalise t) = payload_after_entries t" for t
    by (simp add: payload_after_entries_def normalise_def nn)
  have vn: "first_violation (normalise t) = first_violation t" for t
    by (simp add: first_violation_def normalise_def)
  have mn: "Metadata (normalise t) = sort_key fst (Metadata t)" for t
    by (simp add: normalise_def)
  from v have v': "first_violation s' = None" by (simp add: fv)
  show "fst (MarshalJSON s) =
      payload_before_entries s @ entries_text (Metadata s) @ payload_after_entries s"
    by (rule payload_split [OF v])
  show "fst (MarshalJSON s') =
      payload_before_entries s @ entries_text (Metadata s') @ payload_after_entries s"
    using payload_split [OF v'] by (simp only: b' a')
  show "fst (MarshalJSON (normalise s)) =
      payload_before_entries s @ entries_text (sort_key fst (Metadata s)) @ payload_after_entries s"
    using payload_split [of "normalise s"] v by (simp only: vn bn an mn simp_thms)
  show "fst (MarshalJSON (normalise s')) =
      payload_before_entries s @ entries_text (sort_key fst (Metadata s')) @ payload_after_entries s"
    using payload_split [of "normalise s'"] v' by (simp only: vn bn an mn b' a' simp_thms)
qed

section \<open>Concrete buffers\<close>

lemma tagged_server_buf: "MarshalJSON_buf tagged_server = Inr tagged_buffer"
  by code_simp

section \<open>Properties of the encoder\<close>

text \<open>
  C1. For a request that passes validation and whose strings are clean, the bytes returned
  are a well-formed JSON object exactly when both the personality and the user data are
  empty: each of these two fields is written with a separator after it, which is then
  followed by the separator of the next field or by the closing brace. So the property of
  the claim fails whenever one of the two fields is present, in particular when it is the
  last field.
\<close>

theorem well_formed_iff_no_trailing_separator:
  assumes "first_violation s = None" and "clean_strings s" and "clean (Personality s)"
  shows "json_object_wf (fst (MarshalJSON s)) = (Personality s = [] \<and> UserData s = [])"
proof (cases "Personality s = [] \<and> UserData s = []")
  case True
  then have "json_object_wf (fst (MarshalJSON s))"
    using well_formed_when_clean [OF assms(1) _ _ assms(2)] by simp
  with True show ?thesis by simp
next
  case False
  from assms(2) have n: "clean (Server.Name s)" and k: "clean (Key s)"
    by (simp_all add: clean_strings_def)
  have "\<not> json_wf (fst (MarshalJSON s))"
  proof (cases "Personality s = []")
    case True
    with False have "UserData s \<noteq> []" by simp
    with True show ?thesis using user_data_malformed [OF assms(1) _ _ n k] by simp
  next
    case False
    then show ?thesis by (rule personality_malformed [OF assms(1) _ n assms(3)])
  qed
  with False show ?thesis by (simp add: json_object_wf_def)
qed

text \<open>
  C1, at a concrete request: personality \<open>x\<close> and no other optional field. The request
  passes validation, and the bytes returned end in a separator before the closing braces.
\<close>

theorem well_formed_iff_no_trailing_separator_witness:
  \<open>first_violation personality_server = None \<and>
   MarshalJSON personality_server =
     (''{"server":{"flavorRef":100,"imageRef":1235,"name":"a","personality":"x",}}'', None) \<and>
   \<not> json_object_wf (fst (MarshalJSON personality_server))\<close>
proof -
  have v: "first_violation personality_server = None" by code_simp
  have c: "clean_strings personality_server" "clean (Personality personality_server)"
    by code_simp+
  have p: "Personality personality_server \<noteq> []" by code_simp
  have m: \<open>MarshalJSON personality_server =
     (''{"server":{"flavorRef":100,"imageRef":1235,"name":"a","personality":"x",}}'', None)\<close>
    by code_simp
  have "\<not> json_object_wf (fst (MarshalJSON personality_server))"
    using well_formed_iff_no_trailing_separator [OF v c] p by simp
  with v m show ?thesis by simp
qed

text \<open>
  C2. Whenever the user data is not empty, the \<open>user_data\<close> field that is written has
  the empty string as its value, whatever the data, and no other chunk carries that field,
  while the standard base64 encoding of the data is not empty: in the call
  \<open>Encode([]byte(s.UserData), newb)\<close> destination and source are exchanged, so nothing
  is encoded into \<open>newb\<close>.
\<close>

theorem user_data_value_is_empty:
  assumes "MarshalJSON_buf s = Inr b" and "UserData s \<noteq> []"
  shows \<open>'',"user_data": "",'' \<in> set b \<and>
         (\<forall>c \<in> set b. prefix '',"user_data":'' c \<longrightarrow> c = '',"user_data": "",'') \<and>
         EncodeToString (UserData s) \<noteq> []\<close>
proof -
  have v: "first_violation s = None" using assms(1) by (rule first_violation_of_buf)
  have b: "b = required_chunks s @ personality_chunks s @ optional_chunks s @ [''}}'']"
    using MarshalJSON_buf_chunks [OF v] assms(1) by simp
  have 1: \<open>'',"user_data": "",'' \<in> set b\<close>
    unfolding b using assms(2) by (simp add: optional_chunks_def)
  have 2: \<open>c = '',"user_data": "",''\<close> if c: "c \<in> set b" and p: \<open>prefix '',"user_data":'' c\<close> for c
  proof -
    from c have "c \<in> set (required_chunks s) \<or> c \<in> set (personality_chunks s) \<or>
        c \<in> set (optional_chunks s) \<or> c = ''}}''"
      unfolding b by auto
    then show ?thesis
    proof (elim disjE)
      assume "c \<in> set (required_chunks s)"
      with p show ?thesis by (auto simp add: required_chunks_def)
    next
      assume "c \<in> set (personality_chunks s)"
      with p show ?thesis by (auto simp add: personality_chunks_def split: if_splits)
    next
      assume "c \<in> set (optional_chunks s)"
      with p show ?thesis
        using entries_chunks_no_label [of c "Metadata s" \<open>''user_data":''\<close>]
          groups_chunks_no_label [of c "SecurityGroups s" \<open>''user_data":''\<close>]
        by (auto simp add: optional_chunks_def split: if_splits)
    next
      assume "c = ''}}''"
      with p show ?thesis by simp
    qed
  qed
  have 3: "EncodeToString (UserData s) \<noteq> []" using assms(2) by (rule EncodeToString_nonempty)
  from 1 2 3 show ?thesis by blast
qed

text \<open>
  C2, at \<open>UserData = "hello"\<close>: the field is written with the empty value, while the
  standard base64 encoding of \<open>hello\<close> is \<open>aGVsbG8=\<close>.
\<close>

theorem user_data_value_is_empty_witness:
  \<open>MarshalJSON_buf hello_server = Inr hello_buffer \<and>
   '',"user_data": "",'' \<in> set hello_buffer \<and>
   MarshalJSON hello_server =
     (''{"server":{"flavorRef":100,"imageRef":1235,"name":"a","user_data": "",}}'', None) \<and>
   EncodeToString (UserData hello_server) = ''aGVsbG8=''\<close>
proof -
  have h: "MarshalJSON_buf hello_server = Inr hello_buffer" by code_simp
  have u: "UserData hello_server \<noteq> []" by code_simp
  have m: \<open>MarshalJSON hello_server =
     (''{"server":{"flavorRef":100,"imageRef":1235,"name":"a","user_data": "",}}'', None)\<close>
    by code_simp
  have e: "EncodeToString (UserData hello_server) = ''aGVsbG8=''" by code_simp
  have \<open>'',"user_data": "",'' \<in> set hello_buffer\<close>
    using user_data_value_is_empty [OF h u] by simp
  with h m e show ?thesis by simp
qed

text \<open>
  C3. The error that \<open>MarshalJSON\<close> returns is the first violated rule in the order
  flavor, image, name, personality, and there is none exactly when no rule is violated.
  When a rule is violated the bytes returned are empty, and \<open>CreateServer\<close> returns that
  error with the log of transport requests unchanged: whatever the transport is, it is not
  called.
\<close>

theorem validation_fail_fast:
  "snd (MarshalJSON s) = first_violation s \<and>
   (first_violation s = Some e \<longrightarrow>
      fst (MarshalJSON s) = [] \<and>
      CreateServer COMPUTE_URL baseRequest Unmarshal a s log = (Inl e, log))"
proof (cases "first_violation s")
  case None
  then show ?thesis by (simp add: snd_MarshalJSON)
next
  case (Some e')
  then have "MarshalJSON s = ([], Some e')" by (rule MarshalJSON_error)
  with Some show ?thesis by (simp add: CreateServer_def)
qed

text \<open>
  C3, at a request that violates the first two rules: flavor 99 and image 0. The error is
  the one of the flavor, no bytes are returned and the log stays empty.
\<close>

theorem validation_fail_fast_witness:
  "first_violation failing_flavor_server = Some InvalidFlavor \<and>
   MarshalJSON failing_flavor_server = ([], Some InvalidFlavor) \<and>
   CreateServer ''https://compute/'' (\<lambda>path method body. Inr ''{}'') (\<lambda>body. Inr ())
     \<lparr>TenantID = ''t''\<rparr> failing_flavor_server [] = (Inl InvalidFlavor, [])"
proof -
  have h: "first_violation failing_flavor_server = Some InvalidFlavor"
    by code_simp
  show ?thesis
    using h validation_fail_fast
      [where s = failing_flavor_server and e = InvalidFlavor
         and COMPUTE_URL = "''https://compute/''" and baseRequest = "\<lambda>path method body. Inr ''{}''"
         and Unmarshal = "\<lambda>body. Inr ()" and a = "\<lparr>TenantID = ''t''\<rparr>" and log = "[]"]
    by (simp add: prod_eq_iff)
qed

text \<open>
  C4, as stated, fails: a personality of 256 bytes together with flavor 0 is refused with
  \<open>InvalidFlavor\<close>, not \<open>PersonalityTooLarge\<close>, because the flavor is checked first.
\<close>

theorem personality_over_cap_counterexample:
  "255 < length (Personality (base_server\<lparr>FlavorRef := 0, Personality := long_personality\<rparr>)) \<and>
   MarshalJSON (base_server\<lparr>FlavorRef := 0, Personality := long_personality\<rparr>) = ([], Some InvalidFlavor)"
  by code_simp

text \<open>
  C4, amended. For a request whose flavor, image and name are valid: a personality of more
  than 255 bytes is refused with \<open>PersonalityTooLarge\<close> and no bytes; a personality of
  exactly 255 bytes is accepted, and the bytes returned start with the required fields
  followed by the personality field, whose value between the double quotes is the
  personality byte for byte.
\<close>

theorem personality_cap:
  assumes "FlavorRef s \<in> {XSmall, Small, Medium, Large, XLarge, DblXLarge}"
    and "ImageRef s \<noteq> 0" and "Server.Name s \<noteq> []"
  shows \<open>(255 < length (Personality s) \<longrightarrow> MarshalJSON s = ([], Some PersonalityTooLarge)) \<and>
     (length (Personality s) = 255 \<longrightarrow>
        snd (MarshalJSON s) = None \<and>
        prefix (''{"server":{"flavorRef":'' @ fmt_d (FlavorRef s) @ '',"imageRef":'' @ fmt_d (ImageRef s) @
                '',"name":"'' @ Server.Name s @ ''","personality":"'' @ Personality s @ ''"'')
          (fst (MarshalJSON s)))\<close>
proof (intro conjI impI)
  assume "255 < length (Personality s)"
  with assms have "first_violation s = Some PersonalityTooLarge"
    by (simp add: first_violation_def)
  then show "MarshalJSON s = ([], Some PersonalityTooLarge)" by (rule MarshalJSON_error)
next
  assume len: "length (Personality s) = 255"
  with assms have v: "first_violation s = None" by (simp add: first_violation_def)
  from len have ne: "Personality s \<noteq> []" by auto
  show "snd (MarshalJSON s) = None" by (simp add: MarshalJSON_chunks [OF v])
  show \<open>prefix (''{"server":{"flavorRef":'' @ fmt_d (FlavorRef s) @ '',"imageRef":'' @ fmt_d (ImageRef s) @
                '',"name":"'' @ Server.Name s @ ''","personality":"'' @ Personality s @ ''"'')
          (fst (MarshalJSON s))\<close>
    using ne by (simp add: MarshalJSON_chunks [OF v] concat_required_chunks personality_chunks_def)
qed

text \<open>C4, amended, at a personality of 256 bytes and at one of 255 bytes.\<close>

theorem personality_cap_witness:
  \<open>MarshalJSON (base_server\<lparr>Personality := long_personality\<rparr>) = ([], Some PersonalityTooLarge) \<and>
   snd (MarshalJSON (base_server\<lparr>Personality := full_personality\<rparr>)) = None \<and>
   prefix (''{"server":{"flavorRef":100,"imageRef":1235,"name":"a","personality":"'' @ full_personality @ ''"'')
     (fst (MarshalJSON (base_server\<lparr>Personality := full_personality\<rparr>)))\<close>
proof -
  have f: "fmt_d 100 = ''100''" "fmt_d 1235 = ''1235''" by code_simp+
  show ?thesis
    using personality_cap [of "base_server\<lparr>Personality := long_personality\<rparr>"]
      personality_cap [of "base_server\<lparr>Personality := full_personality\<rparr>"]
    by (simp add: base_server_def XSmall_def UbuntuLucid10_04Kernel_def long_personality_def
        full_personality_def f)
qed

text \<open>
  C5, as stated, fails: the request with an empty key whose name is \<open>a","key_name":"k\<close>
  passes validation and returns byte for byte the payload of the request with name
  \<open>a\<close> and key \<open>k\<close>. The payload holds the field \<open>key_name\<close> although the key is empty,
  and nothing that is read from the payload can tell the two requests apart.
\<close>

theorem injected_key_name_counterexample:
  "first_violation injected_server = None \<and> Key injected_server = [] \<and>
   fst (MarshalJSON injected_server) = fst (MarshalJSON keyed_server) \<and>
   Key keyed_server \<noteq> [] \<and>
   has_field ''key_name'' (fst (MarshalJSON injected_server))"
  by code_simp

text \<open>
  C5, amended. For a request that passes validation and whose strings (name, key,
  personality, metadata keys and values, names of the security groups) contain no double
  quote and no backslash, each optional field is a field of the payload returned exactly
  when its condition holds: personality, key_name and user_data when the string is not
  empty, config_drive when the flag is true, min_count and max_count when the count is
  positive, metadata and security_groups when the collection is not empty. An empty
  collection leaves no field of its name in the payload.
\<close>

theorem optional_field_in_payload_iff:
  assumes "first_violation s = None" and "quote_free_strings s"
  shows "has_field ''personality'' (fst (MarshalJSON s)) = (Personality s \<noteq> []) \<and>
     has_field ''key_name'' (fst (MarshalJSON s)) = (Key s \<noteq> []) \<and>
     has_field ''config_drive'' (fst (MarshalJSON s)) = ConfigDrive s \<and>
     has_field ''min_count'' (fst (MarshalJSON s)) = (0 < MinCount s) \<and>
     has_field ''max_count'' (fst (MarshalJSON s)) = (0 < MaxCount s) \<and>
     has_field ''user_data'' (fst (MarshalJSON s)) = (UserData s \<noteq> []) \<and>
     has_field ''metadata'' (fst (MarshalJSON s)) = (Metadata s \<noteq> []) \<and>
     has_field ''security_groups'' (fst (MarshalJSON s)) = (SecurityGroups s \<noteq> [])"
  unfolding has_field_def payload_fields_MarshalJSON [OF assms] by simp

text \<open>
  C5, amended, at a request with a key and one metadata entry: these two are fields of
  the payload and none of the other six.
\<close>

theorem optional_field_in_payload_iff_witness:
  "has_field ''key_name'' (fst (MarshalJSON tagged_server)) \<and>
   has_field ''metadata'' (fst (MarshalJSON tagged_server)) \<and>
   \<not> has_field ''personality'' (fst (MarshalJSON tagged_server)) \<and>
   \<not> has_field ''config_drive'' (fst (MarshalJSON tagged_server)) \<and>
   \<not> has_field ''min_count'' (fst (MarshalJSON tagged_server)) \<and>
   \<not> has_field ''max_count'' (fst (MarshalJSON tagged_server)) \<and>
   \<not> has_field ''user_data'' (fst (MarshalJSON tagged_server)) \<and>
   \<not> has_field ''security_groups'' (fst (MarshalJSON tagged_server))"
proof -
  have v: "first_violation tagged_server = None" by code_simp
  have q: "quote_free_strings tagged_server" by code_simp
  show ?thesis
    using optional_field_in_payload_iff [OF v q] by (simp add: tagged_server_def base_server_def)
qed

text \<open>
  C6, as stated, fails: with the single metadata entry \<open>role\<close>, \<open>web\<close> and every other
  optional field empty or zero, a name that carries double quotes gives a payload that is
  a well-formed JSON object and holds all of the fields personality, key_name, min_count,
  max_count, user_data, security_groups and config_drive.
\<close>

theorem metadata_single_entry_counterexample:
  \<open>first_violation injected_role_server = None \<and>
   Metadata injected_role_server = [(''role'', ''web'')] \<and>
   Personality injected_role_server = [] \<and> Key injected_role_server = [] \<and>
   \<not> ConfigDrive injected_role_server \<and>
   MinCount injected_role_server = 0 \<and> MaxCount injected_role_server = 0 \<and>
   UserData injected_role_server = [] \<and> SecurityGroups injected_role_server = [] \<and>
   json_object_wf (fst (MarshalJSON injected_role_server)) \<and>
   has_field ''personality'' (fst (MarshalJSON injected_role_server)) \<and>
   has_field ''key_name'' (fst (MarshalJSON injected_role_server)) \<and>
   has_field ''min_count'' (fst (MarshalJSON injected_role_server)) \<and>
   has_field ''max_count'' (fst (MarshalJSON injected_role_server)) \<and>
   has_field ''user_data'' (fst (MarshalJSON injected_role_server)) \<and>
   has_field ''security_groups'' (fst (MarshalJSON injected_role_server)) \<and>
   has_field ''config_drive'' (fst (MarshalJSON injected_role_server))\<close>
  by code_simp

text \<open>
  C6, amended. For a request that passes validation, with the single metadata entry
  \<open>role\<close>, \<open>web\<close>, every other optional field empty or zero, and a name without double
  quote and backslash: the bytes returned are the required fields followed by
  \<open>,"metadata":{"role": "web"}\<close> and the two closing braces, and nothing else; the keys
  read from the payload are \<open>server\<close>, then \<open>flavorRef\<close>, \<open>imageRef\<close>, \<open>name\<close> and
  \<open>metadata\<close> inside it, then the one key \<open>role\<close> inside the metadata; and none of
  personality, key_name, min_count, max_count, user_data, security_groups and config_drive
  is a field of the payload. The metadata object is a well-formed JSON object.
\<close>

theorem metadata_single_entry:
  assumes "first_violation s = None"
    and \<open>Metadata s = [(''role'', ''web'')]\<close>
    and "Personality s = []" and "Key s = []" and "\<not> ConfigDrive s"
    and "MinCount s = 0" and "MaxCount s = 0" and "UserData s = []" and "SecurityGroups s = []"
    and "quote_free (Server.Name s)"
  shows \<open>MarshalJSON s =
       (''{"server":{"flavorRef":'' @ fmt_d (FlavorRef s) @ '',"imageRef":'' @ fmt_d (ImageRef s) @
        '',"name":"'' @ Server.Name s @ ''","metadata":{"role": "web"}}}'', None) \<and>
     payload_keys (fst (MarshalJSON s)) =
       [(1, ''server''), (2, ''flavorRef''), (2, ''imageRef''), (2, ''name''), (2, ''metadata''),
        (3, ''role'')] \<and>
     \<not> has_field ''personality'' (fst (MarshalJSON s)) \<and>
     \<not> has_field ''key_name'' (fst (MarshalJSON s)) \<and>
     \<not> has_field ''min_count'' (fst (MarshalJSON s)) \<and>
     \<not> has_field ''max_count'' (fst (MarshalJSON s)) \<and>
     \<not> has_field ''user_data'' (fst (MarshalJSON s)) \<and>
     \<not> has_field ''security_groups'' (fst (MarshalJSON s)) \<and>
     \<not> has_field ''config_drive'' (fst (MarshalJSON s)) \<and>
     json_object_wf ''{"role": "web"}''\<close>
proof -
  have q: "quote_free_strings s"
    using assms by (simp add: quote_free_strings_def quote_free_def)
  have 1: \<open>MarshalJSON s =
       (''{"server":{"flavorRef":'' @ fmt_d (FlavorRef s) @ '',"imageRef":'' @ fmt_d (ImageRef s) @
        '',"name":"'' @ Server.Name s @ ''","metadata":{"role": "web"}}}'', None)\<close>
    using assms
    by (simp add: MarshalJSON_chunks concat_required_chunks personality_chunks_def
        optional_chunks_def entry_text_def)
  have 2: "payload_keys (fst (MarshalJSON s)) =
       [(1, ''server''), (2, ''flavorRef''), (2, ''imageRef''), (2, ''name''), (2, ''metadata''),
        (3, ''role'')]"
    unfolding payload_keys_MarshalJSON [OF assms(1) q] using assms by simp
  have 3: "payload_fields (fst (MarshalJSON s)) = [''flavorRef'', ''imageRef'', ''name'', ''metadata'']"
    unfolding payload_fields_MarshalJSON [OF assms(1) q] using assms by simp
  have 4: \<open>json_object_wf ''{"role": "web"}''\<close> by code_simp
  have 5: "\<not> has_field ''personality'' (fst (MarshalJSON s))"
    "\<not> has_field ''key_name'' (fst (MarshalJSON s))"
    "\<not> has_field ''min_count'' (fst (MarshalJSON s))"
    "\<not> has_field ''max_count'' (fst (MarshalJSON s))"
    "\<not> has_field ''user_data'' (fst (MarshalJSON s))"
    "\<not> has_field ''security_groups'' (fst (MarshalJSON s))"
    "\<not> has_field ''config_drive'' (fst (MarshalJSON s))"
    unfolding has_field_def 3 by simp_all
  from 1 2 4 5 show ?thesis by (simp only: simp_thms)
qed

text \<open>C6, amended, at flavor 100, image 1235 and name \<open>a\<close>.\<close>

theorem metadata_single_entry_witness:
  \<open>MarshalJSON role_server =
     (''{"server":{"flavorRef":100,"imageRef":1235,"name":"a","metadata":{"role": "web"}}}'', None) \<and>
   payload_fields (fst (MarshalJSON role_server)) = [''flavorRef'', ''imageRef'', ''name'', ''metadata''] \<and>
   \<not> has_field ''key_name'' (fst (MarshalJSON role_server))\<close>
proof -
  have f: "fmt_d 100 = ''100''" "fmt_d 1235 = ''1235''" by code_simp+
  have v: "first_violation role_server = None" by code_simp
  have q: "quote_free (Server.Name role_server)" by code_simp
  have p: "payload_fields (fst (MarshalJSON role_server)) = [''flavorRef'', ''imageRef'', ''name'', ''metadata'']"
    by code_simp
  have h: "Metadata role_server = [(''role'', ''web'')]" "Personality role_server = []"
    "Key role_server = []" "\<not> ConfigDrive role_server" "MinCount role_server = 0"
    "MaxCount role_server = 0" "UserData role_server = []" "SecurityGroups role_server = []"
    by (simp_all add: role_server_def base_server_def)
  have n: "FlavorRef role_server = 100" "ImageRef role_server = 1235" "Server.Name role_server = ''a''"
    by (simp_all add: role_server_def base_server_def XSmall_def UbuntuLucid10_04Kernel_def)
  note t = metadata_single_entry [OF v h q]
  from t have a: \<open>MarshalJSON role_server =
     (''{"server":{"flavorRef":100,"imageRef":1235,"name":"a","metadata":{"role": "web"}}}'', None)\<close>
    by (simp add: n f)
  have b: "\<not> has_field ''key_name'' (fst (MarshalJSON role_server))"
    by (rule t [THEN conjunct2, THEN conjunct2, THEN conjunct2, THEN conjunct1])
  from a p b show ?thesis by (simp only: simp_thms)
qed

text \<open>
  C7. For a request that passes validation and whose security groups are named
  \<open>default\<close> and \<open>web\<close>, in this order, the bytes returned end with the field
  \<open>security_groups\<close> whose value is an array of two objects, each with the field
  \<open>name\<close> only, in that order, with one separator between them, closed once, and then the
  two closing braces. The array is well-formed JSON.
\<close>

theorem security_groups_two_entries:
  assumes "first_violation s = None"
    and "map IDLink.Name (SecurityGroups s) = [''default'', ''web'']"
  shows \<open>snd (MarshalJSON s) = None \<and>
     suffix '',"security_groups":[{"name": "default"},{"name": "web"}]}}'' (fst (MarshalJSON s)) \<and>
     json_wf ''[{"name": "default"},{"name": "web"}]''\<close>
proof -
  from assms(2) obtain g1 g2 where sg: "SecurityGroups s = [g1, g2]"
    and n: "IDLink.Name g1 = ''default''" "IDLink.Name g2 = ''web''"
    by auto
  have wf: \<open>json_wf ''[{"name": "default"},{"name": "web"}]''\<close> by code_simp
  obtain front where fr: \<open>optional_chunks s =
      front @ (if SecurityGroups s \<noteq> []
               then '',"security_groups":['' # groups_chunks (SecurityGroups s) else [])\<close>
    using optional_chunks_front by blast
  have e: \<open>concat (optional_chunks s) @ ''}}'' =
      concat front @ '',"security_groups":[{"name": "default"},{"name": "web"}]}}''\<close>
    unfolding fr using sg n by (simp add: group_text_def)
  have "fst (MarshalJSON s) =
      concat (required_chunks s) @ concat (personality_chunks s) @ (concat (optional_chunks s) @ ''}}'')"
    by (simp only: MarshalJSON_chunks [OF assms(1)] fst_conv)
  also have \<open>\<dots> = (concat (required_chunks s) @ concat (personality_chunks s) @ concat front) @
      '',"security_groups":[{"name": "default"},{"name": "web"}]}}''\<close>
    by (simp only: e append_assoc)
  finally have \<open>fst (MarshalJSON s) =
      (concat (required_chunks s) @ concat (personality_chunks s) @ concat front) @
      '',"security_groups":[{"name": "default"},{"name": "web"}]}}''\<close> .
  then have \<open>suffix '',"security_groups":[{"name": "default"},{"name": "web"}]}}''
          (fst (MarshalJSON s))\<close>
    by (rule suffixI)
  moreover have "snd (MarshalJSON s) = None" by (simp add: MarshalJSON_chunks [OF assms(1)])
  ultimately show ?thesis using wf by simp
qed

text \<open>C7, at two groups that also carry an id, and one of them a link.\<close>

theorem security_groups_two_entries_witness:
  \<open>snd (MarshalJSON grouped_server) = None \<and>
   suffix '',"security_groups":[{"name": "default"},{"name": "web"}]}}'' (fst (MarshalJSON grouped_server))\<close>
proof -
  have v: "first_violation grouped_server = None" by code_simp
  have n: "map IDLink.Name (SecurityGroups grouped_server) = [''default'', ''web'']" by code_simp
  show ?thesis using security_groups_two_entries [OF v n] by simp
qed

text \<open>
  C8. For a request that passes validation, the first four chunks of the buffer are the
  opening of the object and the fields \<open>flavorRef\<close>, \<open>imageRef\<close> and \<open>name\<close>, in
  this order, and none of them carries an optional field: every optional field that is
  written comes after them.
\<close>

theorem required_fields_first:
  assumes "MarshalJSON_buf s = Inr b"
  shows \<open>fst (MarshalJSON s) = concat b \<and>
     take 4 b = [''{"server":{'', ''"flavorRef":'' @ fmt_d (FlavorRef s),
                 '',"imageRef":'' @ fmt_d (ImageRef s), '',"name":"'' @ Server.Name s @ ''"''] \<and>
     list_all (\<lambda>l. \<not> field_written l (take 4 b)) optional_labels\<close>
proof -
  have v: "first_violation s = None" using assms by (rule first_violation_of_buf)
  have b: "b = required_chunks s @ personality_chunks s @ optional_chunks s @ [''}}'']"
    using MarshalJSON_buf_chunks [OF v] assms by simp
  have t: "take 4 b = required_chunks s" unfolding b by (simp add: required_chunks_def)
  have 0: "fst (MarshalJSON s) = concat b" using assms by (simp add: MarshalJSON_def Bytes_def)
  have 1: "list_all (\<lambda>l. \<not> field_written l (take 4 b)) optional_labels"
    unfolding t by (simp add: required_chunks_def optional_labels_def)
  from 0 1 t show ?thesis by (simp add: required_chunks_def)
qed

text \<open>C8, at a request with a key and one metadata entry.\<close>

theorem required_fields_first_witness:
  \<open>fst (MarshalJSON tagged_server) = concat tagged_buffer \<and>
   take 4 tagged_buffer =
     [''{"server":{'', ''"flavorRef":100'', '',"imageRef":1235'', '',"name":"a"'']\<close>
proof -
  have f: "fmt_d 100 = ''100''" "fmt_d 1235 = ''1235''" by code_simp+
  show ?thesis
    using required_fields_first [OF tagged_server_buf]
    by (simp add: tagged_server_def base_server_def XSmall_def UbuntuLucid10_04Kernel_def f)
qed

text \<open>
  C9. Let two invocations work on the same request, so that the two lists of metadata
  entries have distinct keys and stand for the same map, and every other field is equal.
  Then both return the same error result, and on an error both return no bytes. Otherwise
  the two payloads are the same bytes before the metadata entries and the same bytes after
  them, and between these the entries of the map, each in the same text, in the order of
  the one invocation and in the order of the other: the two orders are permutations of
  each other, and sorting either by key gives the same list, whose payload, with the same
  bytes before and after, is the common normal form of both. The two buffers hold the same
  chunks, counted with multiplicity.
\<close>

theorem encode_deterministic:
  assumes "distinct (map fst (Metadata s))" and "distinct (map fst (Metadata s'))"
    and "map_of (Metadata s) = map_of (Metadata s')"
    and "s' = s\<lparr>Metadata := Metadata s'\<rparr>"
  shows "snd (MarshalJSON s) = snd (MarshalJSON s') \<and>
         mset (Metadata s) = mset (Metadata s') \<and>
         sort_key fst (Metadata s) = sort_key fst (Metadata s') \<and>
         (snd (MarshalJSON s) \<noteq> None \<longrightarrow> fst (MarshalJSON s) = [] \<and> fst (MarshalJSON s') = []) \<and>
         (snd (MarshalJSON s) = None \<longrightarrow>
            (\<exists>pre post.
               fst (MarshalJSON s) = pre @ entries_text (Metadata s) @ post \<and>
               fst (MarshalJSON s') = pre @ entries_text (Metadata s') @ post \<and>
               fst (MarshalJSON (normalise s)) = pre @ entries_text (sort_key fst (Metadata s)) @ post \<and>
               fst (MarshalJSON (normalise s')) =
                 pre @ entries_text (sort_key fst (Metadata s')) @ post)) \<and>
         MarshalJSON (normalise s) = MarshalJSON (normalise s') \<and>
         (\<forall>b b'. MarshalJSON_buf s = Inr b \<and> MarshalJSON_buf s' = Inr b' \<longrightarrow> mset b = mset b')"
proof -
  have fv: "first_violation s' = first_violation s"
    by (subst assms(4)) (simp add: first_violation_def)
  have 1: "snd (MarshalJSON s) = snd (MarshalJSON s')" by (simp add: snd_MarshalJSON fv)
  have m: "mset (Metadata s) = mset (Metadata s')" by (rule same_map_sort_key(1) [OF assms(1-3)])
  have so: "sort_key fst (Metadata s) = sort_key fst (Metadata s')"
    by (rule same_map_sort_key(2) [OF assms(1-3)])
  have "normalise s' = normalise s"
    using so by (subst assms(4)) (simp add: normalise_def)
  then have 2: "MarshalJSON (normalise s) = MarshalJSON (normalise s')" by simp
  have 3: "mset b = mset b'" if b: "MarshalJSON_buf s = Inr b" and b': "MarshalJSON_buf s' = Inr b'" for b b'
  proof -
    have v: "first_violation s = None" using b by (rule first_violation_of_buf)
    then have v': "first_violation s' = None" by (simp add: fv)
    from m have l: "length (Metadata s) = length (Metadata s')" by (rule mset_eq_length)
    then have ne: "(Metadata s' = []) = (Metadata s = [])" by auto
    have r: "required_chunks s' = required_chunks s" by (subst assms(4)) (simp add: required_chunks_def)
    have p: "personality_chunks s' = personality_chunks s"
      by (subst assms(4)) (simp add: personality_chunks_def)
    have e: "Metadata s \<noteq> [] \<Longrightarrow> mset (entries_chunks (Metadata s')) = mset (entries_chunks (Metadata s))"
      using m l ne by (simp add: mset_entries_chunks)
    have f: "Key s' = Key s" "ConfigDrive s' = ConfigDrive s" "MinCount s' = MinCount s"
      "MaxCount s' = MaxCount s" "UserData s' = UserData s" "SecurityGroups s' = SecurityGroups s"
      by (subst assms(4), simp)+
    have o: "mset (optional_chunks s') = mset (optional_chunks s)"
      unfolding optional_chunks_def f ne using e by simp
    from b have "b = required_chunks s @ personality_chunks s @ optional_chunks s @ [''}}'']"
      by (simp add: MarshalJSON_buf_chunks [OF v])
    moreover from b' have "b' = required_chunks s' @ personality_chunks s' @ optional_chunks s' @ [''}}'']"
      by (simp add: MarshalJSON_buf_chunks [OF v'])
    ultimately show ?thesis by (simp add: r p o)
  qed
  have 4: "fst (MarshalJSON s) = [] \<and> fst (MarshalJSON s') = []" if "snd (MarshalJSON s) \<noteq> None"
  proof -
    from that obtain e where e: "first_violation s = Some e" by (auto simp add: snd_MarshalJSON)
    then have "first_violation s' = Some e" by (simp add: fv)
    with e show ?thesis by (simp add: MarshalJSON_error)
  qed
  have 5: "\<exists>pre post.
               fst (MarshalJSON s) = pre @ entries_text (Metadata s) @ post \<and>
               fst (MarshalJSON s') = pre @ entries_text (Metadata s') @ post \<and>
               fst (MarshalJSON (normalise s)) = pre @ entries_text (sort_key fst (Metadata s)) @ post \<and>
               fst (MarshalJSON (normalise s')) =
                 pre @ entries_text (sort_key fst (Metadata s')) @ post"
    if "snd (MarshalJSON s) = None"
  proof -
    from that have v: "first_violation s = None" by (simp add: snd_MarshalJSON)
    note sp = payload_split_same_map [OF assms v]
    show ?thesis
      by (intro exI [of _ "payload_before_entries s"] exI [of _ "payload_after_entries s"] conjI)
         (rule sp)+
  qed
  from 1 m so 2 3 4 5 show ?thesis by blast
qed

text \<open>
  C9, at a map of two entries visited in the two possible orders: both invocations
  succeed, the bytes differ, they agree before and after the entries, the normalised
  results agree, and the chunks are the same.
\<close>

theorem encode_deterministic_witness:
  "snd (MarshalJSON ab_server) = None \<and> snd (MarshalJSON ba_server) = None \<and>
   fst (MarshalJSON ab_server) \<noteq> fst (MarshalJSON ba_server) \<and>
   (\<exists>pre post.
      fst (MarshalJSON ab_server) = pre @ entries_text [(''b'', ''2''), (''a'', ''1'')] @ post \<and>
      fst (MarshalJSON ba_server) = pre @ entries_text [(''a'', ''1''), (''b'', ''2'')] @ post) \<and>
   MarshalJSON (normalise ab_server) = MarshalJSON (normalise ba_server) \<and>
   MarshalJSON_buf ab_server = Inr ab_buffer \<and> MarshalJSON_buf ba_server = Inr ba_buffer \<and>
   mset ab_buffer = mset ba_buffer"
proof -
  have 1: "distinct (map fst (Metadata ab_server))" "distinct (map fst (Metadata ba_server))"
    by (simp_all add: ab_server_def ba_server_def)
  have 2: "map_of (Metadata ab_server) = map_of (Metadata ba_server)"
    by (auto simp add: ab_server_def ba_server_def)
  have 3: "ba_server = ab_server\<lparr>Metadata := Metadata ba_server\<rparr>"
    by (simp add: ab_server_def ba_server_def)
  have 4: "MarshalJSON_buf ab_server = Inr ab_buffer" "MarshalJSON_buf ba_server = Inr ba_buffer"
    by code_simp+
  have 5: "fst (MarshalJSON ab_server) \<noteq> fst (MarshalJSON ba_server)" by code_simp
  have 6: "snd (MarshalJSON ab_server) = None" "snd (MarshalJSON ba_server) = None" by code_simp+
  have 7: "Metadata ab_server = [(''b'', ''2''), (''a'', ''1'')]"
    "Metadata ba_server = [(''a'', ''1''), (''b'', ''2'')]"
    by (simp_all add: ab_server_def ba_server_def)
  note t = encode_deterministic [OF 1 2 3]
  from t 6 have "\<exists>pre post.
      fst (MarshalJSON ab_server) = pre @ entries_text (Metadata ab_server) @ post \<and>
      fst (MarshalJSON ba_server) = pre @ entries_text (Metadata ba_server) @ post"
    by blast
  then have 8: "\<exists>pre post.
      fst (MarshalJSON ab_server) = pre @ entries_text [(''b'', ''2''), (''a'', ''1'')] @ post \<and>
      fst (MarshalJSON ba_server) = pre @ entries_text [(''a'', ''1''), (''b'', ''2'')] @ post"
    by (simp only: 7)
  from t have 9: "MarshalJSON (normalise ab_server) = MarshalJSON (normalise ba_server)" by blast
  from t 4 have 10: "mset ab_buffer = mset ba_buffer" by blast
  from 4 5 6 8 9 10 show ?thesis by (simp only: simp_thms)
qed

text \<open>
  C10, as stated, fails: the name made of \<open>a\<close>, two backslashes and \<open>b\<close> contains a
  backslash, and the bytes returned are a well-formed JSON object all the same (the two
  backslashes read as an escape sequence).
\<close>

theorem escaped_backslash_counterexample:
  "first_violation (base_server\<lparr>Name := [CHR ''a'', CHR 0x5C, CHR 0x5C, CHR ''b'']\<rparr>) = None \<and>
   CHR 0x5C \<in> set (Server.Name (base_server\<lparr>Name := [CHR ''a'', CHR 0x5C, CHR 0x5C, CHR ''b'']\<rparr>)) \<and>
   json_object_wf (fst (MarshalJSON (base_server\<lparr>Name := [CHR ''a'', CHR 0x5C, CHR 0x5C, CHR ''b'']\<rparr>)))"
  by code_simp

text \<open>
  C10, amended. The name, the key, the personality, the metadata keys and values and the
  names of the security groups are written between double quotes byte for byte. For a
  request with empty personality and user data whose strings contain no double quote, no
  backslash and no control byte, the bytes returned are a well-formed JSON object. A double
  quote or a backslash in a string can make them malformed: the name \<open>a\<close> followed by
  a double quote does, and so does the name \<open>a\<close> followed by a backslash.
\<close>

theorem strings_written_verbatim:
  \<open>(MarshalJSON_buf s = Inr b \<longrightarrow>
      fst (MarshalJSON s) = concat b \<and>
      '',"name":"'' @ Server.Name s @ ''"'' \<in> set b \<and>
      (Key s \<noteq> [] \<longrightarrow> '',"key_name":"'' @ Key s @ ''"'' \<in> set b) \<and>
      (Personality s \<noteq> [] \<longrightarrow> '',"personality":"'' @ Personality s @ ''",'' \<in> set b) \<and>
      (\<forall>(key, val) \<in> set (Metadata s). ''"'' @ key @ ''": "'' @ val @ ''"'' \<in> set b) \<and>
      (\<forall>sg \<in> set (SecurityGroups s). ''{"name": "'' @ IDLink.Name sg @ ''"}'' \<in> set b) \<and>
      (Personality s = [] \<and> UserData s = [] \<and> clean_strings s \<longrightarrow> json_object_wf (concat b))) \<and>
   \<not> json_wf (fst (MarshalJSON (base_server\<lparr>Name := [CHR ''a'', CHR 0x22]\<rparr>))) \<and>
   \<not> json_wf (fst (MarshalJSON (base_server\<lparr>Name := [CHR ''a'', CHR 0x5C]\<rparr>)))\<close>
proof -
  have 1: \<open>fst (MarshalJSON s) = concat b \<and>
      '',"name":"'' @ Server.Name s @ ''"'' \<in> set b \<and>
      (Key s \<noteq> [] \<longrightarrow> '',"key_name":"'' @ Key s @ ''"'' \<in> set b) \<and>
      (Personality s \<noteq> [] \<longrightarrow> '',"personality":"'' @ Personality s @ ''",'' \<in> set b) \<and>
      (\<forall>(key, val) \<in> set (Metadata s). ''"'' @ key @ ''": "'' @ val @ ''"'' \<in> set b) \<and>
      (\<forall>sg \<in> set (SecurityGroups s). ''{"name": "'' @ IDLink.Name sg @ ''"}'' \<in> set b) \<and>
      (Personality s = [] \<and> UserData s = [] \<and> clean_strings s \<longrightarrow> json_object_wf (concat b))\<close>
    if buf: "MarshalJSON_buf s = Inr b"
  proof -
    have v: "first_violation s = None" using buf by (rule first_violation_of_buf)
    have b: "b = required_chunks s @ personality_chunks s @ optional_chunks s @ [''}}'']"
      using MarshalJSON_buf_chunks [OF v] buf by simp
    have a: "fst (MarshalJSON s) = concat b" using buf by (simp add: MarshalJSON_def Bytes_def)
    have n: \<open>'',"name":"'' @ Server.Name s @ ''"'' \<in> set b\<close>
      unfolding b by (simp add: required_chunks_def)
    have k: \<open>Key s \<noteq> [] \<longrightarrow> '',"key_name":"'' @ Key s @ ''"'' \<in> set b\<close>
      unfolding b by (simp add: optional_chunks_def)
    have p: \<open>Personality s \<noteq> [] \<longrightarrow> '',"personality":"'' @ Personality s @ ''",'' \<in> set b\<close>
      unfolding b by (simp add: personality_chunks_def)
    have m: \<open>\<forall>(key, val) \<in> set (Metadata s). ''"'' @ key @ ''": "'' @ val @ ''"'' \<in> set b\<close>
    proof clarify
      fix key val assume kv: "(key, val) \<in> set (Metadata s)"
      then have "Metadata s \<noteq> []" by auto
      with entries_chunks_mem [OF kv] have "entry_text key val \<in> set (optional_chunks s)"
        by (simp add: optional_chunks_def)
      then show \<open>''"'' @ key @ ''": "'' @ val @ ''"'' \<in> set b\<close>
        unfolding b by (simp add: entry_text_def)
    qed
    have g: \<open>\<forall>sg \<in> set (SecurityGroups s). ''{"name": "'' @ IDLink.Name sg @ ''"}'' \<in> set b\<close>
    proof
      fix sg assume sg: "sg \<in> set (SecurityGroups s)"
      then have "SecurityGroups s \<noteq> []" by auto
      with groups_chunks_mem [OF sg] have "group_text sg \<in> set (optional_chunks s)"
        by (simp add: optional_chunks_def)
      then show \<open>''{"name": "'' @ IDLink.Name sg @ ''"}'' \<in> set b\<close>
        unfolding b by (simp add: group_text_def)
    qed
    have w: "Personality s = [] \<and> UserData s = [] \<and> clean_strings s \<longrightarrow> json_object_wf (concat b)"
      using well_formed_when_clean [OF v] a by auto
    from a n k p m g w show ?thesis by simp
  qed
  have 2: "\<not> json_wf (fst (MarshalJSON (base_server\<lparr>Name := [CHR ''a'', CHR 0x22]\<rparr>)))"
    by code_simp
  have 3: "\<not> json_wf (fst (MarshalJSON (base_server\<lparr>Name := [CHR ''a'', CHR 0x5C]\<rparr>)))"
    by code_simp
  from 1 2 3 show ?thesis by simp
qed

text \<open>
  C10, amended, at a request with a key, one metadata entry and one security group, and at
  a request with a personality.
\<close>

theorem strings_written_verbatim_witness:
  \<open>MarshalJSON_buf full_server = Inr full_buffer \<and>
   '',"name":"a"'' \<in> set full_buffer \<and>
   '',"key_name":"k"'' \<in> set full_buffer \<and>
   ''"role": "web"'' \<in> set full_buffer \<and>
   ''{"name": "default"}'' \<in> set full_buffer \<and>
   json_object_wf (concat full_buffer) \<and>
   MarshalJSON_buf personality_server = Inr personality_buffer \<and>
   '',"personality":"x",'' \<in> set personality_buffer\<close>
proof -
  have b: "MarshalJSON_buf full_server = Inr full_buffer" by code_simp
  have c: "Personality full_server = [] \<and> UserData full_server = [] \<and> clean_strings full_server"
    by code_simp
  have p: "MarshalJSON_buf personality_server = Inr personality_buffer" by code_simp
  have 1: \<open>'',"name":"a"'' \<in> set full_buffer \<and>
   '',"key_name":"k"'' \<in> set full_buffer \<and>
   ''"role": "web"'' \<in> set full_buffer \<and>
   ''{"name": "default"}'' \<in> set full_buffer \<and>
   json_object_wf (concat full_buffer)\<close>
    using strings_written_verbatim [of full_server full_buffer] b c
    by (simp add: full_server_def base_server_def)
  have 2: \<open>'',"personality":"x",'' \<in> set personality_buffer\<close>
    using strings_written_verbatim [of personality_server personality_buffer] p
    by (simp add: personality_server_def base_server_def)
  from b p 1 2 show ?thesis by simp
qed

end
